theory Spec2Isabelle
  imports Complex_Main "HOL-Library.Sublist" "HOL-Library.Monad_Syntax"
begin

section \<open>Data model (src/app/page.tsx, lines 9-39; src/lib/supabase.ts, lines 13-24)\<close>

text \<open>
  A JavaScript \<^verbatim>\<open>number\<close> is modelled as an exact rational: timestamps are
  integral milliseconds, seconds may be fractional (\<^verbatim>\<open>ms / 1000\<close>), and the rounding
  of IEEE doubles (and the exponent notation in which very large numbers print) is left
  out of the model. An optional field (\<^verbatim>\<open>x?: T\<close>,
  \<^verbatim>\<open>T | null\<close>) is an \<open>option\<close>: \<open>None\<close> stands for both
  \<^verbatim>\<open>undefined\<close> and \<^verbatim>\<open>null\<close>, which the code never tells apart
  (it tests with \<^verbatim>\<open>== null\<close>, \<^verbatim>\<open>??\<close> and truthiness only).
  A \<^verbatim>\<open>Record<string, T>\<close> is an object created by \<^verbatim>\<open>{}\<close>: a map from strings
  to its own properties, read through the properties it inherits from
  \<^verbatim>\<open>Object.prototype\<close> (see the JavaScript objects below).
  Field names follow the source, with a suffix where two types share a name or the name
  is taken in Isabelle (\<^verbatim>\<open>id\<close>, \<^verbatim>\<open>end\<close>, \<^verbatim>\<open>text\<close>).
\<close>

type_synonym number = rat

record Category =
  id_c :: string
  name :: string
  color :: string
  goalPct :: "number option"
  icon :: "string option"
  parentId :: "string option"

record Session =
  id_s :: string
  categoryId :: string
  start :: number
  end_s :: "number option"

record Goal =
  id_g :: string
  text_g :: string
  categoryId_g :: string
  completed :: "bool option"
  createdAt :: number
  totalSeconds :: "number option"
  isActive :: "bool option"
  lastStartTime :: "number option"

text \<open>A row of the \<^verbatim>\<open>categories\<close> table (src/lib/supabase.ts, \<^verbatim>\<open>Row\<close>).\<close>

record CategoryRow =
  id_r :: string
  user_id :: string
  name_r :: string
  color_r :: string
  goal_pct :: "number option"
  icon_r :: "string option"
  parent_id :: "string option"
  exclude_from_goals :: bool
  created_at :: string
  updated_at :: string

text \<open>The object \<^verbatim>\<open>{ start, end }\<close> returned by \<^verbatim>\<open>rangeBounds\<close>.\<close>

record Bounds =
  start_b :: number
  end_b :: number

text \<open>The argument \<^verbatim>\<open>override?: { id?: string; goal?: number }\<close> of the goal sums.\<close>

record Override =
  id_o :: "string option"
  goal_o :: "number option"

subsection \<open>JavaScript operators\<close>

text \<open>\<^verbatim>\<open>x ?? d\<close>: the default replaces \<^verbatim>\<open>undefined\<close> and \<^verbatim>\<open>null\<close> only.\<close>

definition nullish :: "'a option \<Rightarrow> 'a \<Rightarrow> 'a" where
  "nullish x d = (case x of None \<Rightarrow> d | Some v \<Rightarrow> v)"

text \<open>Truthiness of an optional string and of an optional number: the empty string and
  zero are falsy, as \<^verbatim>\<open>undefined\<close> is.\<close>

definition truthy_string :: "string option \<Rightarrow> bool" where
  "truthy_string x = (case x of None \<Rightarrow> False | Some s \<Rightarrow> s \<noteq> [])"

definition truthy_number :: "number option \<Rightarrow> bool" where
  "truthy_number x = (case x of None \<Rightarrow> False | Some n \<Rightarrow> n \<noteq> 0)"

text \<open>\<^verbatim>\<open>x || d\<close> on an optional number.\<close>

definition or_number :: "number option \<Rightarrow> number \<Rightarrow> number" where
  "or_number x d = (case x of None \<Rightarrow> d | Some n \<Rightarrow> if n \<noteq> 0 then n else d)"

text \<open>The decimal digits of a non-negative integer, as a template literal prints it.\<close>

fun digits :: "nat \<Rightarrow> string" where
  "digits n =
     (if n < 10 then [''0123456789'' ! n]
      else digits (n div 10) @ [''0123456789'' ! (n mod 10)])"

declare digits.simps [simp del]

text \<open>\<^verbatim>\<open>parts.join(" ")\<close>.\<close>

fun join_space :: "string list \<Rightarrow> string" where
  "join_space [] = []"
| "join_space [p] = p"
| "join_space (p # q # ps) = p @ '' '' @ join_space (q # ps)"

text \<open>\<^verbatim>\<open>s.includes(sub)\<close>, and \<^verbatim>\<open>parts[0]?.includes(sub)\<close> read as a condition
  (\<^verbatim>\<open>undefined\<close> is falsy).\<close>

definition includes_s :: "string \<Rightarrow> string \<Rightarrow> bool" where
  "includes_s s sub = sublist sub s"

definition head_includes :: "string list \<Rightarrow> string \<Rightarrow> bool" where
  "head_includes parts sub = (case parts of [] \<Rightarrow> False | p # _ \<Rightarrow> includes_s p sub)"

subsection \<open>JavaScript objects used as maps\<close>

text \<open>
  The value of a variable that the source types as a number: at run time it is a number,
  a string (the result of \<^verbatim>\<open>+\<close> on a value that is not a number; its text depends
  on the platform and is not kept), or a member inherited from
  \<^verbatim>\<open>Object.prototype\<close> (a function, or the prototype itself).
\<close>

datatype jsvalue = Num number | Str | ProtoMember

text \<open>
  Modelled from ECMAScript, not from the repository: the names of the properties that
  every object created by \<^verbatim>\<open>{}\<close> inherits from \<^verbatim>\<open>Object.prototype\<close>.
\<close>

definition objectPrototypeKeys :: "string list" where
  "objectPrototypeKeys =
     [''constructor'', ''hasOwnProperty'', ''isPrototypeOf'', ''propertyIsEnumerable'',
      ''toLocaleString'', ''toString'', ''valueOf'', ''__proto__'', ''__defineGetter__'',
      ''__defineSetter__'', ''__lookupGetter__'', ''__lookupSetter__'']"

text \<open>
  The result of reading \<^verbatim>\<open>obj[k]\<close>: \<^verbatim>\<open>undefined\<close>, an own property, or an
  inherited member (never \<^verbatim>\<open>null\<close> or \<^verbatim>\<open>undefined\<close>, always truthy).
  An object is the map of its own properties.
\<close>

datatype 'v property = Undefined | Own 'v | Inherited

definition js_get :: "(string \<rightharpoonup> 'v) \<Rightarrow> string \<Rightarrow> 'v property" where
  "js_get obj k =
     (case obj k of
        Some v \<Rightarrow> Own v
      | None \<Rightarrow> if k \<in> set objectPrototypeKeys then Inherited else Undefined)"

text \<open>
  The assignment \<^verbatim>\<open>obj[k] = v\<close>. At the key \<^verbatim>\<open>__proto__\<close> it runs the inherited
  setter, which creates no property (and ignores a value that is not an object; the
  program assigns no object there).
\<close>

definition js_set :: "(string \<rightharpoonup> 'v) \<Rightarrow> string \<Rightarrow> 'v \<Rightarrow> (string \<rightharpoonup> 'v)" where
  "js_set obj k v = (if k = ''__proto__'' then obj else obj(k \<mapsto> v))"

text \<open>\<^verbatim>\<open>p ?? d\<close> on a property read, and \<^verbatim>\<open>a + b\<close>: the sum of two numbers, and
  otherwise a string.\<close>

definition nullish_value :: "jsvalue property \<Rightarrow> jsvalue \<Rightarrow> jsvalue" where
  "nullish_value p d = (case p of Undefined \<Rightarrow> d | Own v \<Rightarrow> v | Inherited \<Rightarrow> ProtoMember)"

definition js_add :: "jsvalue \<Rightarrow> jsvalue \<Rightarrow> jsvalue" where
  "js_add a b = (case (a, b) of (Num x, Num y) \<Rightarrow> Num (x + y) | _ \<Rightarrow> Str)"

text \<open>What a call may do besides returning: throw (\<open>Inl\<close>); a call that does not return
  at all has no value (\<open>None\<close>).\<close>

datatype error = TypeError

type_synonym jsobject = "string \<rightharpoonup> jsvalue"

section \<open>Helpers (src/app/page.tsx, lines 41-133)\<close>

subsection \<open>formatHMS (lines 44-76)\<close>

definition YEAR :: nat where "YEAR = 365 * 24 * 3600"
definition DAY :: nat where "DAY = 24 * 3600"
definition HOUR :: nat where "HOUR = 3600"
definition MINUTE :: nat where "MINUTE = 60"

text \<open>\<open>MINUTE\<close> is the source's constant \<^verbatim>\<open>MIN\<close>, a name Isabelle reserves.\<close>

text \<open>\<^verbatim>\<open>${n === 1 ? "" : "s"}\<close>\<close>

definition plural :: "nat \<Rightarrow> string" where
  "plural n = (if n = 1 then [] else ''s'')"

text \<open>The assembly of the parts (lines 58-74), from the five counts.\<close>

definition formatHMS_parts :: "nat \<Rightarrow> nat \<Rightarrow> nat \<Rightarrow> nat \<Rightarrow> nat \<Rightarrow> string list" where
  "formatHMS_parts years days hours mins secs =
     (let parts = [];
          parts = (if years \<noteq> 0 then parts @ [digits years @ '' yr'' @ plural years] else parts);
          parts = (if days \<noteq> 0 then parts @ [digits days @ '' day'' @ plural days] else parts);
          parts = (if parts = [] \<and> hours \<noteq> 0
                   then parts @ [digits hours @ '' hr'' @ plural hours] else parts);
          parts = (if parts = [] \<and> hours = 0 \<and> mins \<noteq> 0
                   then parts @ [digits mins @ '' min''] else parts);
          parts =
            (if head_includes parts ''yr'' \<or> head_includes parts ''day'' then
               (if days \<noteq> 0 \<and> \<not> head_includes parts ''day''
                then parts @ [digits days @ '' day'' @ plural days]
                else if hours \<noteq> 0 then parts @ [digits hours @ '' hr'' @ plural hours]
                else parts)
             else if hours \<noteq> 0 then parts @ [digits mins @ '' min'']
             else if mins \<noteq> 0 then parts @ [digits secs @ '' sec'']
             else parts @ [digits secs @ '' sec''])
      in parts)"

text \<open>The counts (lines 46-56) and the joined parts (line 75).\<close>

definition formatHMS :: "number \<Rightarrow> string" where
  "formatHMS totalSeconds' =
     (let s = nat (max 0 \<lfloor>totalSeconds'\<rfloor>);
          years = s div YEAR; s = s - years * YEAR;
          days = s div DAY; s = s - days * DAY;
          hours = s div HOUR; s = s - hours * HOUR;
          mins = s div MINUTE;
          secs = s mod MINUTE
      in join_space (formatHMS_parts years days hours mins secs))"

subsection \<open>rangeBounds (lines 83-116)\<close>

text \<open>
  \<^verbatim>\<open>startOfDay\<close>, \<^verbatim>\<open>startOfWeek\<close>, \<^verbatim>\<open>startOfMonth\<close> and
  \<^verbatim>\<open>startOfYear\<close> are computed by the platform's \<^verbatim>\<open>Date\<close> in the local time
  zone; they are parameters of the model. \<^verbatim>\<open>Date.now()\<close> is the parameter
  \<open>now\<close>. TypeScript's types are erased when the program runs, so the selector is
  the string the function receives.
\<close>

record LocalCalendar =
  startOfDay :: "number \<Rightarrow> number"
  startOfWeek :: "number \<Rightarrow> number"
  startOfMonth :: "number \<Rightarrow> number"
  startOfYear :: "number \<Rightarrow> number"

definition rangeBounds :: "LocalCalendar \<Rightarrow> number \<Rightarrow> string \<Rightarrow> Bounds" where
  "rangeBounds cal now range' =
     (if range' = ''Today'' then \<lparr>start_b = startOfDay cal now, end_b = now\<rparr>
      else if range' = ''Week'' then \<lparr>start_b = startOfWeek cal now, end_b = now\<rparr>
      else if range' = ''Month'' then \<lparr>start_b = startOfMonth cal now, end_b = now\<rparr>
      else if range' = ''Year'' then \<lparr>start_b = startOfYear cal now, end_b = now\<rparr>
      else \<lparr>start_b = 0, end_b = now\<rparr>)"

subsection \<open>overlapMs (lines 118-122)\<close>

definition overlapMs :: "number \<Rightarrow> number \<Rightarrow> number \<Rightarrow> number \<Rightarrow> number" where
  "overlapMs aStart aEnd bStart bEnd =
     (let start' = max aStart bStart;
          end' = min aEnd bEnd
      in max 0 (end' - start'))"

subsection \<open>buildChildMap (lines 124-133)\<close>

text \<open>
  \<^verbatim>\<open>if (!map[key]) map[key] = []; map[key].push(c.id)\<close>: an inherited member is truthy
  and has no \<^verbatim>\<open>push\<close>, so the call throws a \<^verbatim>\<open>TypeError\<close>, which ends the loop.
\<close>

definition buildChildMap :: "Category list \<Rightarrow> error + (string \<rightharpoonup> string list)" where
  "buildChildMap categories =
     fold (\<lambda>c r.
        case r of
          Inl e \<Rightarrow> Inl e
        | Inr m \<Rightarrow>
            (let key = nullish (parentId c) ''__root__'';
                 m = (if js_get m key = Undefined then js_set m key [] else m)
             in case js_get m key of
                  Own ks \<Rightarrow> Inr (m(key \<mapsto> ks @ [id_c c]))
                | _ \<Rightarrow> Inl TypeError))
       categories (Inr Map.empty)"

subsection \<open>computeDirectSeconds (lines 135-167)\<close>

text \<open>
  \<^verbatim>\<open>Date.now()\<close> is read once for every running session and once for every active
  goal: \<open>clock n\<close> is the reading number \<open>n\<close> of the call, and \<open>reads\<close> counts the
  readings taken. \<open>addTotal\<close> is the statement
  \<^verbatim>\<open>totals[k] = (totals[k] ?? 0) + x\<close>.
\<close>

definition addTotal :: "jsobject \<Rightarrow> string \<Rightarrow> number \<Rightarrow> jsobject" where
  "addTotal totals k x = js_set totals k (js_add (nullish_value (js_get totals k) (Num 0)) (Num x))"

definition computeDirectSeconds ::
  "(nat \<Rightarrow> number) \<Rightarrow> Session list \<Rightarrow> number \<Rightarrow> number \<Rightarrow> Goal list option \<Rightarrow> jsobject" where
  "computeDirectSeconds clock sessions windowStart windowEnd goals =
     (let totals = Map.empty;
          reads = 0;
          (reads, totals) =
            fold (\<lambda>s (reads, totals).
               let (end', reads) = (case end_s s of
                                      Some e \<Rightarrow> (e, reads)
                                    | None \<Rightarrow> (clock reads, Suc reads));
                   ms = overlapMs (start s) end' windowStart windowEnd
               in (reads, if ms > 0 then addTotal totals (categoryId s) (ms / 1000) else totals))
              sessions (reads, totals);
          (reads, totals) =
            (case goals of
               None \<Rightarrow> (reads, totals)
             | Some gs \<Rightarrow>
                 fold (\<lambda>g (reads, totals).
                    let (currentElapsed, reads) =
                          (if isActive g = Some True \<and> truthy_number (lastStartTime g)
                           then (of_int \<lfloor>(clock reads - nullish (lastStartTime g) 0) / 1000\<rfloor>,
                                 Suc reads)
                           else (0, reads));
                        totalSeconds' = or_number (totalSeconds g) 0 + currentElapsed
                    in (reads, if totalSeconds' > 0
                               then addTotal totals (categoryId_g g) totalSeconds'
                               else totals))
                   gs (reads, totals))
      in totals)"

subsection \<open>rollupSeconds (lines 169-189)\<close>

text \<open>
  \<^verbatim>\<open>dfs\<close> is a recursive closure over \<^verbatim>\<open>childMap\<close>, \<^verbatim>\<open>direct\<close> and
  the mutable \<^verbatim>\<open>memo\<close>. The model passes \<open>memo\<close> in and returns it with the
  total; a call that does not return has the value \<open>None\<close>. \<open>sumKids\<close> is the loop
  \<^verbatim>\<open>for (const k of kids) total += dfs(k)\<close> on the pair of \<open>total\<close> and \<open>memo\<close>;
  \<open>iterable\<close> is what \<^verbatim>\<open>for ... of\<close> makes of \<^verbatim>\<open>childMap[id] ?? []\<close>: an inherited
  member cannot be iterated.
\<close>

definition iterable :: "string list property \<Rightarrow> error + string list" where
  "iterable p = (case p of Undefined \<Rightarrow> Inr [] | Own ks \<Rightarrow> Inr ks | Inherited \<Rightarrow> Inl TypeError)"

primrec sumKids ::
  "(jsobject \<Rightarrow> string \<Rightarrow> (error + jsvalue \<times> jsobject) option) \<Rightarrow> string list
     \<Rightarrow> jsvalue \<times> jsobject \<Rightarrow> (error + jsvalue \<times> jsobject) option" where
  "sumKids call [] acc = Some (Inr acc)"
| "sumKids call (k # ks) acc =
     do { r \<leftarrow> call (snd acc) k;
          case r of
            Inl e \<Rightarrow> Some (Inl e)
          | Inr vm \<Rightarrow> sumKids call ks (js_add (fst acc) (fst vm), snd vm) }"

lemma sumKids_mono [partial_function_mono]:
  assumes "\<And>m k. mono_option (\<lambda>f. B f m k)"
  shows "mono_option (\<lambda>f. sumKids (B f) ks acc)"
proof (induction ks arbitrary: acc)
  case Nil
  show ?case by (simp add: option.const_mono)
next
  case (Cons k ks)
  have "mono_option (\<lambda>f. case r of Inl e \<Rightarrow> Some (Inl e)
          | Inr vm \<Rightarrow> sumKids (B f) ks (js_add (fst acc) (fst vm), snd vm))" for r
    by (cases r) (simp_all add: option.const_mono Cons)
  then show ?case
    unfolding sumKids.simps by (intro bind_mono assms)
qed

partial_function (option) dfs ::
  "(string \<rightharpoonup> string list) \<Rightarrow> jsobject \<Rightarrow> jsobject \<Rightarrow> string
     \<Rightarrow> (error + jsvalue \<times> jsobject) option" where
  "dfs childMap direct memo i =
     (case js_get memo i of
        Own v \<Rightarrow> Some (Inr (v, memo))
      | Inherited \<Rightarrow> Some (Inr (ProtoMember, memo))
      | Undefined \<Rightarrow>
          (case iterable (js_get childMap i) of
             Inl e \<Rightarrow> Some (Inl e)
           | Inr kids \<Rightarrow>
               do { r \<leftarrow> sumKids (dfs childMap direct) kids
                          (nullish_value (js_get direct i) (Num 0), memo);
                    Some (case r of
                            Inl e \<Rightarrow> Inl e
                          | Inr tm \<Rightarrow> Inr (fst tm, js_set (snd tm) i (fst tm))) }))"

declare dfs.simps [code]

text \<open>\<^verbatim>\<open>ids.forEach(id => dfs(id))\<close>: the totals returned are dropped, the memo is kept.\<close>

primrec forEach_dfs ::
  "(jsobject \<Rightarrow> string \<Rightarrow> (error + jsvalue \<times> jsobject) option) \<Rightarrow> string list \<Rightarrow> jsobject
     \<Rightarrow> (error + jsobject) option" where
  "forEach_dfs call [] memo = Some (Inr memo)"
| "forEach_dfs call (i # is) memo =
     do { r \<leftarrow> call memo i;
          case r of
            Inl e \<Rightarrow> Some (Inl e)
          | Inr vm \<Rightarrow> forEach_dfs call is (snd vm) }"

text \<open>\<^verbatim>\<open>new Set(categories.map((c) => c.id))\<close> in its iteration order: each id once, at
  its first place.\<close>

definition id_set :: "Category list \<Rightarrow> string list" where
  "id_set categories = rev (remdups (rev (map id_c categories)))"

definition rollupSeconds :: "Category list \<Rightarrow> jsobject \<Rightarrow> (error + jsobject) option" where
  "rollupSeconds categories direct =
     (case buildChildMap categories of
        Inl e \<Rightarrow> Some (Inl e)
      | Inr childMap \<Rightarrow>
          (let memo = Map.empty;
               ids = id_set categories
           in forEach_dfs (dfs childMap direct) ids memo))"

subsection \<open>isLeaf (lines 191-193)\<close>

definition isLeaf :: "Category list \<Rightarrow> string \<Rightarrow> bool" where
  "isLeaf categories i = (\<not> list_ex (\<lambda>c. parentId c = Some i) categories)"

section \<open>Goal sums (src/app/page.tsx, lines 299-333)\<close>

definition computeChildGoalSum :: "Category list \<Rightarrow> string \<Rightarrow> Override option \<Rightarrow> number" where
  "computeChildGoalSum categories parentId' override =
     (let sum = 0;
          sum =
            fold (\<lambda>c sum.
               if parentId c = Some parentId' then
                 (let val = (case override of
                               None \<Rightarrow> nullish (goalPct c) 0
                             | Some ov \<Rightarrow>
                                 if id_o ov = Some (id_c c) then nullish (goal_o ov) 0
                                 else nullish (goalPct c) 0)
                  in sum + val)
               else sum)
              categories sum;
          sum =
            (case override of
               None \<Rightarrow> sum
             | Some ov \<Rightarrow>
                 if truthy_string (id_o ov) \<and> \<not> list_ex (\<lambda>c. Some (id_c c) = id_o ov) categories
                 then sum + nullish (goal_o ov) 0 else sum);
          sum =
            (case override of
               None \<Rightarrow> sum
             | Some ov \<Rightarrow>
                 if \<not> truthy_string (id_o ov) then sum + nullish (goal_o ov) 0 else sum)
      in sum)"

definition computeRootGoalSum :: "Category list \<Rightarrow> Override option \<Rightarrow> number" where
  "computeRootGoalSum categories override =
     (let sum = 0;
          sum =
            fold (\<lambda>c sum.
               if parentId c = None then
                 (let val = (case override of
                               None \<Rightarrow> nullish (goalPct c) 0
                             | Some ov \<Rightarrow>
                                 if id_o ov = Some (id_c c) then nullish (goal_o ov) 0
                                 else nullish (goalPct c) 0)
                  in sum + val)
               else sum)
              categories sum;
          sum =
            (case override of
               None \<Rightarrow> sum
             | Some ov \<Rightarrow>
                 if \<not> truthy_string (id_o ov) then sum + nullish (goal_o ov) 0 else sum);
          sum =
            (case override of
               None \<Rightarrow> sum
             | Some ov \<Rightarrow>
                 if truthy_string (id_o ov)
                    \<and> \<not> list_ex (\<lambda>c. Some (id_c c) = id_o ov \<and> parentId c = None) categories
                 then sum + nullish (goal_o ov) 0 else sum)
      in sum)"

section \<open>The page component (src/app/page.tsx, lines 1452-1459, 1623-1627, 2619-2621)\<close>

text \<open>The conversion of a stored row to a \<open>Category\<close> (lines 1452-1459).\<close>

definition toCategory :: "CategoryRow \<Rightarrow> Category" where
  "toCategory c =
     \<lparr>id_c = id_r c,
      name = name_r c,
      color = color_r c,
      goalPct = (if truthy_number (goal_pct c) then goal_pct c else None),
      icon = (if truthy_string (icon_r c) then icon_r c else None),
      parentId = (if truthy_string (parent_id c) then parent_id c else None)\<rparr>"

text \<open>
  \<^verbatim>\<open>directSecondsChart\<close> (lines 1624-1627): \<open>chartHover\<close> and \<open>hoverNow\<close> are the
  state \<^verbatim>\<open>chartHover\<close> and the reference \<^verbatim>\<open>hoverNowRef.current\<close>.
\<close>

definition directSecondsChart ::
  "(nat \<Rightarrow> number) \<Rightarrow> Session list \<Rightarrow> number \<Rightarrow> number \<Rightarrow> Goal list option \<Rightarrow> bool
     \<Rightarrow> number option \<Rightarrow> jsobject" where
  "directSecondsChart clock sessions windowStart windowEnd goals chartHover hoverNow =
     (let endForChart = (if chartHover \<and> truthy_number hoverNow then nullish hoverNow 0 else windowEnd)
      in computeDirectSeconds clock sessions windowStart endForChart goals)"

text \<open>The editor's check of a proposed goal for the category \<open>cat\<close> (lines 2619-2621):
  the pair of \<^verbatim>\<open>sum\<close> and \<^verbatim>\<open>over\<close>.\<close>

definition editorGoalCheck :: "Category list \<Rightarrow> Category \<Rightarrow> number \<Rightarrow> number \<times> bool" where
  "editorGoalCheck categories cat proposed =
     (let sum =
            (if truthy_string (parentId cat)
             then computeChildGoalSum categories (nullish (parentId cat) [])
                    (Some \<lparr>id_o = Some (id_c cat), goal_o = Some proposed\<rparr>)
             else computeRootGoalSum categories
                    (Some \<lparr>id_o = Some (id_c cat), goal_o = Some proposed\<rparr>));
          over = (sum > 100)
      in (sum, over))"

section \<open>Concrete inputs\<close>

text \<open>A category as the self-tests of the source write one (lines 245-248, 275-288):
  an id, a parent and a goal; the name is the id.\<close>

definition test_category :: "string \<Rightarrow> string option \<Rightarrow> number option \<Rightarrow> Category" where
  "test_category i p g =
     \<lparr>id_c = i, name = i, color = ''#000'', goalPct = g, icon = None, parentId = p\<rparr>"

text \<open>Two root categories, \<open>A\<close> with goal 60 and \<open>B\<close> with goal 40.\<close>

definition catA :: Category where
  "catA = test_category ''A'' None (Some 60)"

definition catB :: Category where
  "catB = test_category ''B'' None (Some 40)"

definition rootAB :: "Category list" where
  "rootAB = [catA, catB]"

text \<open>Two stored rows at the root: \<open>sleep\<close>, goal 40, excluded from goals, and
  \<open>work\<close>, goal 70.\<close>

definition test_row :: "string \<Rightarrow> number option \<Rightarrow> bool \<Rightarrow> CategoryRow" where
  "test_row i g x =
     \<lparr>id_r = i, user_id = ''u'', name_r = i, color_r = ''#000'', goal_pct = g, icon_r = None,
      parent_id = None, exclude_from_goals = x, created_at = [], updated_at = []\<rparr>"

definition sleepWorkRows :: "CategoryRow list" where
  "sleepWorkRows = [test_row ''sleep'' (Some 40) True, test_row ''work'' (Some 70) False]"

text \<open>A calendar for closed statements about \<open>rangeBounds\<close>: every period starts
  at the instant itself.\<close>

definition instantCalendar :: LocalCalendar where
  "instantCalendar =
     \<lparr>startOfDay = (\<lambda>d. d), startOfWeek = (\<lambda>d. d), startOfMonth = (\<lambda>d. d),
      startOfYear = (\<lambda>d. d)\<rparr>"

text \<open>A goal timer and a session with the fields the aggregation reads.\<close>

definition test_goal :: "string \<Rightarrow> number option \<Rightarrow> bool option \<Rightarrow> number option \<Rightarrow> Goal" where
  "test_goal c t a l =
     \<lparr>id_g = ''g'', text_g = ''goal'', categoryId_g = c, completed = None, createdAt = 0,
      totalSeconds = t, isActive = a, lastStartTime = l\<rparr>"

definition test_session :: "string \<Rightarrow> number \<Rightarrow> number option \<Rightarrow> Session" where
  "test_session c s e = \<lparr>id_s = ''s'', categoryId = c, start = s, end_s = e\<rparr>"

text \<open>A session of 10 seconds on \<open>a\<close> inside the window from 0 to 60000, a session on
  \<open>b\<close> after the window, and an idle goal timer on \<open>b\<close> with nothing accumulated.\<close>

definition twoSessions :: "Session list" where
  "twoSessions = [test_session ''a'' 0 (Some 10000), test_session ''b'' 70000 (Some 80000)]"

definition idleGoal :: "Goal list option" where
  "idleGoal = Some [test_goal ''b'' (Some 0) None None]"

text \<open>A paused goal timer on \<open>b\<close> with 7 accumulated seconds, a session on \<open>a\<close>
  running since the instant 2000, and a session on \<open>a\<close> from 2000 to 8000.\<close>

definition pausedGoal :: "Goal list option" where
  "pausedGoal = Some [test_goal ''b'' (Some 7) (Some False) (Some 1000)]"

definition runningSession :: "Session list" where
  "runningSession = [test_session ''a'' 2000 None]"

definition endedSession :: "Session list" where
  "endedSession = [test_session ''a'' 2000 (Some 8000)]"

text \<open>A session of 10 seconds on the category with the id \<^verbatim>\<open>"constructor"\<close>.\<close>

definition constructorSession :: "Session list" where
  "constructorSession = [test_session ''constructor'' 0 (Some 10000)]"

text \<open>The two categories \<open>A\<close> with parent \<open>B\<close> and \<open>B\<close> with parent \<open>A\<close>.\<close>

definition cycleAB :: "Category list" where
  "cycleAB = [test_category ''A'' (Some ''B'') None, test_category ''B'' (Some ''A'') None]"

text \<open>One root category whose id is the key \<^verbatim>\<open>"__root__"\<close> of the child map; one
  category \<open>x\<close> whose parent id is \<^verbatim>\<open>"constructor"\<close>; one root category whose id is
  \<^verbatim>\<open>"constructor"\<close>.\<close>

definition sentinelRoot :: "Category list" where
  "sentinelRoot = [test_category ''__root__'' None None]"

definition constructorParent :: "Category list" where
  "constructorParent = [test_category ''x'' (Some ''constructor'') None]"

definition constructorRoot :: "Category list" where
  "constructorRoot = [test_category ''constructor'' None None]"

text \<open>A parent \<open>p\<close> with the children \<open>c1\<close> and \<open>c2\<close>, and direct seconds for the three.\<close>

definition treeP :: "Category list" where
  "treeP = [test_category ''p'' None None, test_category ''c1'' (Some ''p'') None,
            test_category ''c2'' (Some ''p'') None]"

definition directP :: jsobject where
  "directP = [''p'' \<mapsto> Num 1, ''c1'' \<mapsto> Num 30, ''c2'' \<mapsto> Num 12]"

section \<open>The specification's formulas\<close>

text \<open>The live-elapsed seconds and the total of a goal timer as section 4.4 of the
  specification states them: \<^verbatim>\<open>active ? floor((now - lastResume)/1000) : 0\<close>, added to
  the accumulated seconds. The specification gives every active timer a last-resume
  instant; an active timer without one is given no live seconds here.\<close>

definition spec_liveElapsed :: "number \<Rightarrow> Goal \<Rightarrow> number" where
  "spec_liveElapsed now g =
     (if isActive g = Some True
      then (case lastStartTime g of
              None \<Rightarrow> 0
            | Some lastResume \<Rightarrow> of_int \<lfloor>(now - lastResume) / 1000\<rfloor>)
      else 0)"

definition spec_goalTotal :: "number \<Rightarrow> Goal \<Rightarrow> number" where
  "spec_goalTotal now g = nullish (totalSeconds g) 0 + spec_liveElapsed now g"

text \<open>The duration format as section 4.7 of the specification states it: the units of
  the table, every label with an \<open>s\<close> unless its count is exactly 1.\<close>

definition spec_unit :: "nat \<Rightarrow> string \<Rightarrow> string" where
  "spec_unit n label = digits n @ '' '' @ label @ (if n = 1 then [] else ''s'')"

definition spec_formatDuration :: "number \<Rightarrow> string" where
  "spec_formatDuration t =
     (let s = nat \<lfloor>t\<rfloor>
      in if YEAR \<le> s then
           spec_unit (s div YEAR) ''yr''
           @ (if s mod YEAR div DAY = 0 then [] else '' '' @ spec_unit (s mod YEAR div DAY) ''day'')
         else if DAY \<le> s then
           spec_unit (s div DAY) ''day''
           @ (if s mod DAY div HOUR = 0 then [] else '' '' @ spec_unit (s mod DAY div HOUR) ''hr'')
         else if HOUR \<le> s then
           spec_unit (s div HOUR) ''hr'' @ '' '' @ spec_unit (s mod HOUR div MINUTE) ''min''
         else if MINUTE \<le> s then
           spec_unit (s div MINUTE) ''min'' @ '' '' @ spec_unit (s mod MINUTE) ''sec''
         else spec_unit s ''sec'')"

text \<open>The parent graph of a category snapshot (section 3 of the specification): an edge
  from the id of every category that has a parent to the id of that parent. A snapshot is
  acyclic when this graph is.\<close>

definition parentEdges :: "Category list \<Rightarrow> (string \<times> string) list" where
  "parentEdges categories =
     concat (map (\<lambda>c. case parentId c of None \<Rightarrow> [] | Some p \<Rightarrow> [(id_c c, p)]) categories)"

section \<open>Notions of the proofs\<close>

text \<open>
  Both loops of \<open>computeDirectSeconds\<close> have one shape: an element may take a reading
  of the clock, and it adds its weight \<open>w\<close>, when that is positive, to the total of its
  key. A session takes a reading when it is \<open>running\<close>, a goal when its timer is
  \<open>ticking\<close>. \<open>sessionMs\<close> is the overlap of a session with the window,
  \<open>currentElapsed\<close> the constant of that name (line 155) and \<open>goalTotal\<close> the
  \<^verbatim>\<open>totalSeconds\<close> of the goal loop (line 158), each at the clock reading \<open>now\<close>.
\<close>

definition running :: "Session \<Rightarrow> bool" where
  "running s = (end_s s = None)"

definition ticking :: "Goal \<Rightarrow> bool" where
  "ticking g = (isActive g = Some True \<and> truthy_number (lastStartTime g))"

definition sessionMs :: "number \<Rightarrow> number \<Rightarrow> number \<Rightarrow> Session \<Rightarrow> number" where
  "sessionMs windowStart windowEnd now s =
     overlapMs (start s) (nullish (end_s s) now) windowStart windowEnd"

definition currentElapsed :: "number \<Rightarrow> Goal \<Rightarrow> number" where
  "currentElapsed now g =
     (if isActive g = Some True \<and> truthy_number (lastStartTime g)
      then of_int \<lfloor>(now - nullish (lastStartTime g) 0) / 1000\<rfloor> else 0)"

definition goalTotal :: "number \<Rightarrow> Goal \<Rightarrow> number" where
  "goalTotal now g = or_number (totalSeconds g) 0 + currentElapsed now g"

definition accumulate ::
  "('a \<Rightarrow> bool) \<Rightarrow> ('a \<Rightarrow> string) \<Rightarrow> (number \<Rightarrow> 'a \<Rightarrow> number) \<Rightarrow> (nat \<Rightarrow> number) \<Rightarrow> 'a list
     \<Rightarrow> nat \<times> jsobject \<Rightarrow> nat \<times> jsobject" where
  "accumulate reads key w clock xs =
     fold (\<lambda>x (n, t). (if reads x then Suc n else n,
                        if 0 < w (clock n) x then addTotal t (key x) (w (clock n) x) else t)) xs"

text \<open>The read \<^verbatim>\<open>obj[k] ?? 0\<close>, and the number stored at a key (0 when the object has
  no own number there).\<close>

definition read0 :: "jsobject \<Rightarrow> string \<Rightarrow> jsvalue" where
  "read0 obj k = nullish_value (js_get obj k) (Num 0)"

definition seconds_at :: "jsobject \<Rightarrow> string \<Rightarrow> number" where
  "seconds_at obj k = (case obj k of Some (Num n) \<Rightarrow> n | _ \<Rightarrow> 0)"

text \<open>The invariant of \<^verbatim>\<open>totals\<close>: a strictly positive number at every key that is not
  inherited, a string at every other key.\<close>

definition totals_ok :: "jsobject \<Rightarrow> bool" where
  "totals_ok t =
     (\<forall>k v. t k = Some v \<longrightarrow>
        (if k \<in> set objectPrototypeKeys then v = Str else \<exists>x. v = Num x \<and> 0 < x))"

text \<open>The key of a category in the child map (line 128), the \<^verbatim>\<open>kids\<close> of an id
  (line 181), one step of the loop of \<open>buildChildMap\<close> when it does not throw, and the
  child map that the loop builds then.\<close>

definition parentKey :: "Category \<Rightarrow> string" where
  "parentKey c = nullish (parentId c) ''__root__''"

definition kidsOf :: "(string \<rightharpoonup> string list) \<Rightarrow> string \<Rightarrow> string list" where
  "kidsOf childMap i = nullish (childMap i) []"

definition childMap_push :: "Category \<Rightarrow> (string \<rightharpoonup> string list) \<Rightarrow> (string \<rightharpoonup> string list)" where
  "childMap_push c m = m(parentKey c \<mapsto> nullish (m (parentKey c)) [] @ [id_c c])"

definition childMapOf :: "Category list \<Rightarrow> (string \<rightharpoonup> string list)" where
  "childMapOf categories = fold childMap_push categories Map.empty"

text \<open>The invariant of the memo: every entry has its kids in the memo and is the number
  of its direct seconds plus the entries of its kids.\<close>

definition memo_ok :: "(string \<rightharpoonup> string list) \<Rightarrow> jsobject \<Rightarrow> jsobject \<Rightarrow> bool" where
  "memo_ok childMap direct memo =
     (\<forall>i v. memo i = Some v \<longrightarrow>
        set (kidsOf childMap i) \<subseteq> dom memo
        \<and> v = Num (seconds_at direct i + (\<Sum>k\<leftarrow>kidsOf childMap i. seconds_at memo k)))"

text \<open>What a call of \<open>dfs\<close> on \<open>i\<close> establishes: it returns the entry of \<open>i\<close>, a
  number, in a memo that extends the one it was given and satisfies the invariant.\<close>

definition dfs_post ::
  "(string \<rightharpoonup> string list) \<Rightarrow> jsobject \<Rightarrow> jsobject \<Rightarrow> string
     \<Rightarrow> (error + jsvalue \<times> jsobject) option \<Rightarrow> bool" where
  "dfs_post childMap direct memo i res =
     (\<exists>v memo'. res = Some (Inr (Num v, memo')) \<and> memo_ok childMap direct memo'
        \<and> memo \<subseteq>\<^sub>m memo' \<and> memo' i = Some (Num v))"

text \<open>The graph \<open>dfs\<close> walks: an edge from every kid to the id whose list holds it.\<close>

definition kidEdges :: "(string \<rightharpoonup> string list) \<Rightarrow> (string \<times> string) set" where
  "kidEdges childMap = {(k, i). k \<in> set (kidsOf childMap i)}"

text \<open>A set of ids each of which has a kid in the set: no call of \<open>dfs\<close> on a member
  returns.\<close>

definition kid_closed :: "(string \<rightharpoonup> string list) \<Rightarrow> string set \<Rightarrow> bool" where
  "kid_closed childMap B = (\<forall>i\<in>B. \<exists>k\<in>set (kidsOf childMap i). k \<in> B)"

section \<open>Auxiliary lemmas\<close>

lemma nullish_simps [simp]:
  "nullish None d = d"
  "nullish (Some v) d = v"
  by (simp_all add: nullish_def)

lemma truthy_string_simps [simp]:
  "truthy_string None = False"
  "truthy_string (Some s) = (s \<noteq> [])"
  by (simp_all add: truthy_string_def)

lemma truthy_number_simps [simp]:
  "truthy_number None = False"
  "truthy_number (Some n) = (n \<noteq> 0)"
  by (simp_all add: truthy_number_def)

lemma fold_cond_add:
  fixes a :: number
  shows "fold (\<lambda>c sum. if P c then sum + f c else sum) xs a = a + (\<Sum>c\<leftarrow>filter P xs. f c)"
  by (induction xs arbitrary: a) (simp_all add: add.assoc)

lemma list_ex_iff_set: "list_ex P xs = (\<exists>x\<in>set xs. P x)"
  by (simp add: list_ex_iff)

subsection \<open>Goal sums in closed form\<close>

lemma computeRootGoalSum_edit:
  assumes "i \<noteq> []"
  shows "computeRootGoalSum categories (Some \<lparr>id_o = Some i, goal_o = Some g\<rparr>) =
           (\<Sum>c\<leftarrow>filter (\<lambda>c. parentId c = None) categories.
               if id_c c = i then g else nullish (goalPct c) 0)
           + (if \<exists>c\<in>set categories. id_c c = i \<and> parentId c = None then 0 else g)"
proof -
  have eq: "(i = id_c c) = (id_c c = i)" for c :: Category by auto
  show ?thesis
    using assms unfolding computeRootGoalSum_def
    by (auto simp add: Let_def fold_cond_add list_ex_iff_set eq cong: if_cong)
qed

lemma computeChildGoalSum_edit:
  assumes "i \<noteq> []"
  shows "computeChildGoalSum categories p (Some \<lparr>id_o = Some i, goal_o = Some g\<rparr>) =
           (\<Sum>c\<leftarrow>filter (\<lambda>c. parentId c = Some p) categories.
               if id_c c = i then g else nullish (goalPct c) 0)
           + (if \<exists>c\<in>set categories. id_c c = i then 0 else g)"
proof -
  have eq: "(i = id_c c) = (id_c c = i)" for c :: Category by auto
  show ?thesis
    using assms unfolding computeChildGoalSum_def
    by (simp add: Let_def fold_cond_add list_ex_iff_set eq cong: if_cong)
qed

lemma computeRootGoalSum_new:
  "computeRootGoalSum categories (Some \<lparr>id_o = None, goal_o = Some g\<rparr>) =
     (\<Sum>c\<leftarrow>filter (\<lambda>c. parentId c = None) categories. nullish (goalPct c) 0) + g"
  unfolding computeRootGoalSum_def
  by (simp add: Let_def fold_cond_add cong: if_cong)

lemma computeChildGoalSum_new:
  "computeChildGoalSum categories p (Some \<lparr>id_o = None, goal_o = Some g\<rparr>) =
     (\<Sum>c\<leftarrow>filter (\<lambda>c. parentId c = Some p) categories. nullish (goalPct c) 0) + g"
  unfolding computeChildGoalSum_def
  by (simp add: Let_def fold_cond_add cong: if_cong)

lemma editorGoalCheck_rootAB:
  "editorGoalCheck rootAB catA g = (g + 40, g + 40 > 100)"
  by (simp add: editorGoalCheck_def computeRootGoalSum_def rootAB_def catA_def catB_def
      test_category_def Let_def list_ex_iff_set)

lemma editorGoalCheck_closed_form:
  assumes "cat \<in> set categories" and "id_c cat \<noteq> []" and "parentId cat \<noteq> Some []"
  shows "editorGoalCheck categories cat g =
           (let S = (\<Sum>c\<leftarrow>filter (\<lambda>c. parentId c = parentId cat) categories.
                        if id_c c = id_c cat then g else nullish (goalPct c) 0)
            in (S, S > 100))"
proof (cases "parentId cat")
  case None
  have "\<exists>c\<in>set categories. id_c c = id_c cat \<and> parentId c = None"
    using assms(1) None by blast
  then show ?thesis
    using None assms(2)
    by (simp add: editorGoalCheck_def computeRootGoalSum_edit Let_def)
next
  case (Some p)
  have "\<exists>c\<in>set categories. id_c c = id_c cat"
    using assms(1) by blast
  then show ?thesis
    using Some assms(2,3)
    by (simp add: editorGoalCheck_def computeChildGoalSum_edit Let_def)
qed

subsection \<open>The loops of computeDirectSeconds\<close>

lemma proto_key [simp]: "''__proto__'' \<in> set objectPrototypeKeys"
  by (simp add: objectPrototypeKeys_def)

lemma accumulate_simps [simp]:
  "accumulate reads key w clock [] nt = nt"
  "accumulate reads key w clock (x # xs) (n, t) =
     accumulate reads key w clock xs
       (if reads x then Suc n else n,
        if 0 < w (clock n) x then addTotal t (key x) (w (clock n) x) else t)"
  by (simp_all add: accumulate_def)

text \<open>What the statement \<^verbatim>\<open>totals[k'] = (totals[k'] ?? 0) + x\<close> does to the read at a
  key that is not inherited, and to the other keys.\<close>

lemma read0_addTotal:
  assumes "k \<notin> set objectPrototypeKeys"
  shows "read0 (addTotal t k' x) k = (if k' = k then js_add (read0 t k) (Num x) else read0 t k)"
  using assms
  by (auto simp add: read0_def addTotal_def js_set_def js_get_def nullish_value_def
      split: option.splits)

lemma addTotal_other: "k' \<noteq> k \<Longrightarrow> addTotal t k' x k = t k"
  by (simp add: addTotal_def js_set_def)

text \<open>A positive weight keeps the invariant of \<^verbatim>\<open>totals\<close>: at an inherited key
  the sum is that of a member or of a string with a number, a string.\<close>

lemma totals_ok_addTotal:
  assumes "totals_ok t" and "0 < x"
  shows "totals_ok (addTotal t k x)"
  unfolding totals_ok_def
proof (intro allI impI)
  fix j v
  assume j: "addTotal t k x j = Some v"
  show "if j \<in> set objectPrototypeKeys then v = Str else \<exists>x. v = Num x \<and> 0 < x"
  proof (cases "j = k \<and> k \<noteq> ''__proto__''")
    case False
    then have "t j = Some v" using j by (auto simp add: addTotal_def js_set_def split: if_splits)
    then show ?thesis using assms(1) by (simp add: totals_ok_def)
  next
    case True
    then have v: "v = js_add (nullish_value (js_get t k) (Num 0)) (Num x)"
      using j by (simp add: addTotal_def js_set_def)
    show ?thesis
    proof (cases "t k")
      case None
      then show ?thesis
        using v True assms(2)
        by (simp add: js_get_def nullish_value_def js_add_def)
    next
      case (Some u)
      then have "if k \<in> set objectPrototypeKeys then u = Str else \<exists>x. u = Num x \<and> 0 < x"
        using assms(1) by (simp add: totals_ok_def)
      then show ?thesis
        using v True Some assms(2)
        by (auto simp add: js_get_def nullish_value_def js_add_def split: if_splits)
    qed
  qed
qed

lemma accumulate_totals_ok:
  "totals_ok t \<Longrightarrow> totals_ok (snd (accumulate reads key w clock xs (n, t)))"
  by (induction xs arbitrary: n t) (simp_all add: totals_ok_addTotal)

text \<open>A key none of whose elements has a positive weight, at any reading of the clock,
  keeps no entry; under a clock that always reads \<open>now\<close> the read at a key is the sum
  of the positive weights of its elements; and a loop whose weights do not depend on the
  reading gives the same totals under every clock.\<close>

lemma accumulate_absent:
  assumes "t k = None"
      and "\<And>x m. x \<in> set xs \<Longrightarrow> key x = k \<Longrightarrow> \<not> 0 < w (clock m) x"
  shows "snd (accumulate reads key w clock xs (n, t)) k = None"
  using assms
proof (induction xs arbitrary: n t)
  case Nil
  then show ?case by simp
next
  case (Cons x xs)
  have "(if 0 < w (clock n) x then addTotal t (key x) (w (clock n) x) else t) k = None"
  proof (cases "key x = k")
    case True
    then have "\<not> 0 < w (clock n) x" using Cons.prems(2) [of x n] by simp
    then show ?thesis using Cons.prems(1) by simp
  next
    case False
    then show ?thesis using Cons.prems(1) by (simp add: addTotal_other)
  qed
  then show ?case using Cons.prems(2) by (simp add: Cons.IH)
qed

lemma accumulate_value:
  assumes "k \<notin> set objectPrototypeKeys" and "read0 t k = Num a"
  shows "read0 (snd (accumulate reads key w (\<lambda>_. now) xs (n, t))) k
       = Num (a + (\<Sum>x\<leftarrow>filter (\<lambda>x. key x = k) xs. if 0 < w now x then w now x else 0))"
  using assms(2)
proof (induction xs arbitrary: n t a)
  case Nil
  then show ?case by simp
next
  case (Cons x xs)
  let ?t1 = "if 0 < w now x then addTotal t (key x) (w now x) else t"
  have "read0 ?t1 k = Num (a + (if key x = k then (if 0 < w now x then w now x else 0) else 0))"
    using Cons.prems by (simp add: read0_addTotal [OF assms(1)] js_add_def)
  from Cons.IH [OF this] show ?case by (simp add: add.assoc)
qed

lemma accumulate_clock:
  assumes "\<And>x m m'. x \<in> set xs \<Longrightarrow> w (clock m) x = w (clock' m') x"
  shows "snd (accumulate reads key w clock xs (n, t)) = snd (accumulate reads key w clock' xs (n', t))"
  using assms
proof (induction xs arbitrary: n n' t)
  case Nil
  show ?case by simp
next
  case (Cons x xs)
  have eq: "w (clock n) x = w (clock' n') x" using Cons.prems by simp
  show ?case
    unfolding accumulate_simps eq
    by (rule Cons.IH) (simp add: Cons.prems)
qed

text \<open>\<open>computeDirectSeconds\<close> is the goal loop run on the result of the session loop,
  the readings of the clock counted through both.\<close>

lemma computeDirectSeconds_accumulate:
  "computeDirectSeconds clock sessions windowStart windowEnd goals =
     snd (accumulate ticking categoryId_g goalTotal clock
            (case goals of None \<Rightarrow> [] | Some gs \<Rightarrow> gs)
            (accumulate running categoryId (\<lambda>now s. sessionMs windowStart windowEnd now s / 1000)
               clock sessions (0, Map.empty)))"
proof -
  have s: "(\<lambda>s (reads, totals).
               let (end', reads) = (case end_s s of
                                      Some e \<Rightarrow> (e, reads)
                                    | None \<Rightarrow> (clock reads, Suc reads));
                   ms = overlapMs (start s) end' windowStart windowEnd
               in (reads, if ms > 0 then addTotal totals (categoryId s) (ms / 1000) else totals))
         = (\<lambda>x (n, t). (if running x then Suc n else n,
                        if 0 < sessionMs windowStart windowEnd (clock n) x / 1000
                        then addTotal t (categoryId x) (sessionMs windowStart windowEnd (clock n) x / 1000)
                        else t))"
    by (auto simp add: fun_eq_iff Let_def running_def sessionMs_def split: option.splits)
  have g: "(\<lambda>g (reads, totals).
                    let (currentElapsed, reads) =
                          (if isActive g = Some True \<and> truthy_number (lastStartTime g)
                           then (of_int \<lfloor>(clock reads - nullish (lastStartTime g) 0) / 1000\<rfloor>,
                                 Suc reads)
                           else (0, reads));
                        totalSeconds' = or_number (totalSeconds g) 0 + currentElapsed
                    in (reads, if totalSeconds' > 0
                               then addTotal totals (categoryId_g g) totalSeconds'
                               else totals))
        = (\<lambda>x (n, t). (if ticking x then Suc n else n,
                        if 0 < goalTotal (clock n) x
                        then addTotal t (categoryId_g x) (goalTotal (clock n) x)
                        else t))"
    by (auto simp add: fun_eq_iff Let_def ticking_def goalTotal_def currentElapsed_def)
  show ?thesis
    unfolding computeDirectSeconds_def accumulate_def s g
    by (cases goals) (simp_all add: Let_def split: prod.splits)
qed

text \<open>The same facts for a loop that starts from the result of another loop.\<close>

lemma accumulate_totals_ok_pair:
  "totals_ok (snd nt) \<Longrightarrow> totals_ok (snd (accumulate reads key w clock xs nt))"
  by (cases nt) (simp add: accumulate_totals_ok)

lemma accumulate_absent_pair:
  assumes "snd nt k = None"
      and "\<And>x m. x \<in> set xs \<Longrightarrow> key x = k \<Longrightarrow> \<not> 0 < w (clock m) x"
  shows "snd (accumulate reads key w clock xs nt) k = None"
  using assms by (cases nt) (simp add: accumulate_absent)

lemma accumulate_value_pair:
  assumes "k \<notin> set objectPrototypeKeys" and "read0 (snd nt) k = Num a"
  shows "read0 (snd (accumulate reads key w (\<lambda>_. now) xs nt)) k
       = Num (a + (\<Sum>x\<leftarrow>filter (\<lambda>x. key x = k) xs. if 0 < w now x then w now x else 0))"
  using assms by (cases nt) (simp add: accumulate_value)

lemma accumulate_clock_pair:
  assumes "snd nt = snd nt'"
      and "\<And>x m m'. x \<in> set xs \<Longrightarrow> w (clock m) x = w (clock' m') x"
  shows "snd (accumulate reads key w clock xs nt) = snd (accumulate reads key w clock' xs nt')"
proof -
  obtain n t n' where "nt = (n, t)" and "nt' = (n', t)"
    using assms(1) by (cases nt, cases nt') simp
  then show ?thesis
    using accumulate_clock [of xs w clock clock' reads key n t n'] assms(2) by simp
qed

subsection \<open>Facts about computeDirectSeconds\<close>

lemma overlapMs_nonneg: "0 \<le> overlapMs a b c d"
  by (simp add: overlapMs_def Let_def)

lemma or_number_nullish: "or_number x 0 = nullish x 0"
  by (cases x) (simp_all add: or_number_def)

lemma totals_ok_empty: "totals_ok Map.empty"
  by (simp add: totals_ok_def)

lemma computeDirectSeconds_totals_ok:
  "totals_ok (computeDirectSeconds clock sessions windowStart windowEnd goals)"
  unfolding computeDirectSeconds_accumulate
  by (intro accumulate_totals_ok_pair) (simp add: totals_ok_empty)

text \<open>A goal timer that is not ticking has the same total at every clock reading, and so
  has the overlap of a session that has ended.\<close>

lemma goalTotal_idle: "\<not> ticking g \<Longrightarrow> goalTotal now g = goalTotal now' g"
  by (auto simp add: goalTotal_def currentElapsed_def ticking_def)

lemma sessionMs_ended: "end_s s \<noteq> None \<Longrightarrow> sessionMs ws we now s = sessionMs ws we now' s"
  by (auto simp add: sessionMs_def)

text \<open>With the window cut at \<open>f\<close> and a clock that reads \<open>f\<close> or later, a running
  session overlaps the window as a session ended at \<open>f\<close> does.\<close>

lemma sessionMs_frozen:
  assumes "f \<le> now"
  shows "sessionMs ws f now s = sessionMs ws f f s"
  using assms by (cases "end_s s") (auto simp add: sessionMs_def overlapMs_def Let_def min_def max_def)

lemma computeDirectSeconds_clock:
  assumes "\<And>s m m'. s \<in> set sessions \<Longrightarrow>
             sessionMs windowStart windowEnd (clock m) s = sessionMs windowStart windowEnd (clock' m') s"
      and "\<And>g. g \<in> set (case goals of None \<Rightarrow> [] | Some gs \<Rightarrow> gs) \<Longrightarrow> \<not> ticking g"
  shows "computeDirectSeconds clock sessions windowStart windowEnd goals
       = computeDirectSeconds clock' sessions windowStart windowEnd goals"
  unfolding computeDirectSeconds_accumulate
proof (rule accumulate_clock_pair)
  show "snd (accumulate running categoryId (\<lambda>now s. sessionMs windowStart windowEnd now s / 1000)
               clock sessions (0, Map.empty))
      = snd (accumulate running categoryId (\<lambda>now s. sessionMs windowStart windowEnd now s / 1000)
               clock' sessions (0, Map.empty))"
    by (rule accumulate_clock_pair) (simp_all add: assms(1))
next
  fix g m m'
  assume "g \<in> set (case goals of None \<Rightarrow> [] | Some gs \<Rightarrow> gs)"
  then have "\<not> ticking g" by (rule assms(2))
  then show "goalTotal (clock m) g = goalTotal (clock' m') g" by (rule goalTotal_idle)
qed

text \<open>The definitions that evaluate \<open>computeDirectSeconds\<close> on a concrete input.\<close>

lemmas direct_seconds_eval =
  computeDirectSeconds_def overlapMs_def addTotal_def or_number_def Let_def js_get_def js_set_def
  js_add_def nullish_value_def objectPrototypeKeys_def test_session_def test_goal_def

lemma parentKey_inherited:
  "parentKey c \<in> set objectPrototypeKeys
     \<longleftrightarrow> (\<exists>p. parentId c = Some p \<and> p \<in> set objectPrototypeKeys)"
  by (cases "parentId c") (simp_all add: parentKey_def objectPrototypeKeys_def)

subsection \<open>The parts of formatHMS\<close>

text \<open>A part is digits, a space and a label, so it includes \<open>yr\<close> or \<open>day\<close> exactly
  when that is its label.\<close>

lemma digits_chars: "set (digits n) \<subseteq> set ''0123456789''"
proof (induction n rule: digits.induct)
  case (1 n)
  show ?case
  proof (cases "n < 10")
    case True
    then have "''0123456789'' ! n \<in> set ''0123456789''"
      by (intro nth_mem) simp
    then show ?thesis
      using True by (subst digits.simps) simp
  next
    case False
    have "''0123456789'' ! (n mod 10) \<in> set ''0123456789''"
      by (intro nth_mem) simp
    then show ?thesis
      using False "1.IH" by (subst digits.simps) simp
  qed
qed

lemma sublist_skip:
  assumes "sub \<noteq> []" and "hd sub \<notin> set xs"
  shows "sublist sub (xs @ ys) = sublist sub ys"
  using assms
proof (induction xs)
  case Nil
  show ?case by simp
next
  case (Cons x xs)
  obtain a as where sub: "sub = a # as" using Cons.prems(1) by (cases sub) auto
  have "\<not> prefix sub (x # xs @ ys)"
    using Cons.prems(2) by (simp add: sub)
  then show ?case
    using Cons by (simp add: sublist_Cons_right)
qed

lemma sublist_after_digits:
  assumes "sub \<noteq> []" and "hd sub \<notin> set ''0123456789''"
  shows "sublist sub (digits n @ ys) = sublist sub ys"
  using assms digits_chars [of n] by (intro sublist_skip) auto

lemma part_includes:
  "includes_s (digits n @ '' yr'' @ plural n) ''yr''"
  "\<not> includes_s (digits n @ '' yr'' @ plural n) ''day''"
  "\<not> includes_s (digits n @ '' day'' @ plural n) ''yr''"
  "includes_s (digits n @ '' day'' @ plural n) ''day''"
  "\<not> includes_s (digits n @ '' hr'' @ plural n) ''yr''"
  "\<not> includes_s (digits n @ '' hr'' @ plural n) ''day''"
  "\<not> includes_s (digits n @ '' min'') ''yr''"
  "\<not> includes_s (digits n @ '' min'') ''day''"
  by (simp_all add: includes_s_def sublist_after_digits plural_def sublist_code(3))

lemmas part_includes_cons = part_includes [simplified]

lemma nat_max_floor: "nat (max 0 x) = nat x"
  by (simp add: max_def)

text \<open>The parts by the counts that are not 0, and the counts by division.\<close>

lemma formatHMS_parts_cases:
  "formatHMS_parts y d h m sec =
     (let Y = digits y @ '' yr'' @ plural y;
          D = digits d @ '' day'' @ plural d;
          H = digits h @ '' hr'' @ plural h;
          M = digits m @ '' min'';
          S = digits sec @ '' sec''
      in if y \<noteq> 0 then (if d \<noteq> 0 then [Y, D, D] else if h \<noteq> 0 then [Y, H] else [Y])
         else if d \<noteq> 0 then (if h \<noteq> 0 then [D, H] else [D])
         else if h \<noteq> 0 then [H, M]
         else if m \<noteq> 0 then [M, S]
         else [S])"
  by (cases "y = 0"; cases "d = 0"; cases "h = 0"; cases "m = 0";
      simp add: formatHMS_parts_def head_includes_def Let_def part_includes_cons)

lemma formatHMS_counts:
  "formatHMS t =
     (let s = nat \<lfloor>t\<rfloor>
      in join_space (formatHMS_parts (s div YEAR) (s mod YEAR div DAY) (s mod YEAR mod DAY div HOUR)
           (s mod YEAR mod DAY mod HOUR div MINUTE) (s mod YEAR mod DAY mod HOUR mod MINUTE)))"
  unfolding formatHMS_def Let_def nat_max_floor minus_div_mult_eq_mod ..


lemma div_zero_iff_less: "0 < (b::nat) \<Longrightarrow> (a div b = 0) = (a < b)"
  by (simp add: div_eq_0_iff)

lemma unit_positive [simp]: "0 < YEAR" "0 < DAY" "0 < HOUR" "0 < MINUTE"
  by (simp_all add: YEAR_def DAY_def HOUR_def MINUTE_def)

lemma digits_small: "n < 10 \<Longrightarrow> digits n = [''0123456789'' ! n]"
  by (subst digits.simps) simp

lemma digits_large: "\<not> n < 10 \<Longrightarrow> digits n = digits (n div 10) @ [''0123456789'' ! (n mod 10)]"
  by (subst digits.simps) simp

lemmas formatHMS_eval =
  formatHMS_counts formatHMS_parts_cases Let_def YEAR_def DAY_def HOUR_def MINUTE_def
  digits_small digits_large plural_def

lemma formatHMS_120: "formatHMS 120 = ''2 min 0 sec''"
  by (simp add: formatHMS_eval)

lemma formatHMS_year_2h: "formatHMS 31543200 = ''1 yr 2 hrs''"
  by (simp add: formatHMS_eval)

text \<open>With a whole year and a whole day the days are pushed twice: three parts.\<close>

lemma formatHMS_400_days: "formatHMS 34560000 = ''1 yr 35 days 35 days''"
  by (simp add: formatHMS_eval)

subsection \<open>The child map, the memo and the depth-first search\<close>

text \<open>A read of a key that is not inherited sees the own properties only.\<close>

lemma js_get_plain:
  assumes "k \<notin> set objectPrototypeKeys"
  shows "js_get obj k = (case obj k of None \<Rightarrow> Undefined | Some v \<Rightarrow> Own v)"
  using assms by (simp add: js_get_def split: option.splits)

lemma js_set_plain:
  assumes "k \<notin> set objectPrototypeKeys"
  shows "js_set obj k v = obj(k \<mapsto> v)"
  using assms by (auto simp add: js_set_def)

lemma js_get_Undefined: "js_get obj k = Undefined \<Longrightarrow> k \<notin> set objectPrototypeKeys \<and> obj k = None"
  by (auto simp add: js_get_def split: option.splits if_splits)

lemma js_get_Inherited: "js_get obj k = Inherited \<Longrightarrow> k \<in> set objectPrototypeKeys \<and> obj k = None"
  by (auto simp add: js_get_def split: option.splits if_splits)

lemma js_get_Own: "js_get obj k = Own v \<longleftrightarrow> obj k = Some v"
  by (auto simp add: js_get_def split: option.splits if_splits)

lemma iterable_kidsOf:
  assumes "k \<notin> set objectPrototypeKeys"
  shows "iterable (js_get childMap k) = Inr (kidsOf childMap k)"
  by (simp add: js_get_plain [OF assms] iterable_def kidsOf_def split: option.splits)

text \<open>The loop of \<open>buildChildMap\<close> throws at the first category whose key is an inherited
  property name, and otherwise lists under every key the ids of the categories with that
  key, in their order.\<close>

lemma buildChildMap_loop:
  assumes "dom m \<inter> set objectPrototypeKeys = {}"
  shows "fold (\<lambda>c r.
        case r of
          Inl e \<Rightarrow> Inl e
        | Inr m \<Rightarrow>
            (let key = nullish (parentId c) ''__root__'';
                 m = (if js_get m key = Undefined then js_set m key [] else m)
             in case js_get m key of
                  Own ks \<Rightarrow> Inr (m(key \<mapsto> ks @ [id_c c]))
                | _ \<Rightarrow> Inl TypeError))
       categories (Inr m)
     = (if \<exists>c\<in>set categories. parentKey c \<in> set objectPrototypeKeys then Inl TypeError
        else Inr (fold childMap_push categories m))"
    (is "fold ?step categories (Inr m) = _")
  using assms
proof (induction categories arbitrary: m)
  case Nil
  show ?case by simp
next
  case (Cons c cs)
  have stuck: "fold ?step cs (Inl e) = Inl e" for e
    by (induction cs) simp_all
  show ?case
  proof (cases "parentKey c \<in> set objectPrototypeKeys")
    case True
    then have "m (parentKey c) = None" using Cons.prems by auto
    then have "?step c (Inr m) = Inl TypeError"
      using True by (simp add: js_get_def Let_def parentKey_def)
    then show ?thesis using True stuck by simp
  next
    case False
    have step: "?step c (Inr m) = Inr (childMap_push c m)"
      using False
      by (cases "m (parentKey c)")
        (simp_all add: js_get_plain js_set_plain Let_def parentKey_def childMap_push_def)
    have "dom (childMap_push c m) \<inter> set objectPrototypeKeys = {}"
      using False Cons.prems by (auto simp add: childMap_push_def)
    from Cons.IH [OF this] show ?thesis using False step by simp
  qed
qed

lemma buildChildMap_cases:
  "buildChildMap categories =
     (if \<exists>c\<in>set categories. parentKey c \<in> set objectPrototypeKeys then Inl TypeError
      else Inr (childMapOf categories))"
  unfolding buildChildMap_def childMapOf_def by (rule buildChildMap_loop) simp

lemma childMap_push_fold:
  "nullish (fold childMap_push categories m0 i) []
     = nullish (m0 i) [] @ map id_c (filter (\<lambda>c. parentKey c = i) categories)"
proof (induction categories arbitrary: m0)
  case Nil
  show ?case by simp
next
  case (Cons c cs)
  have "nullish (childMap_push c m0 i) []
          = nullish (m0 i) [] @ (if parentKey c = i then [id_c c] else [])"
    by (simp add: childMap_push_def)
  then show ?case
    by (simp add: Cons.IH)
qed

lemma kidsOf_childMapOf:
  "kidsOf (childMapOf categories) i = map id_c (filter (\<lambda>c. parentKey c = i) categories)"
  using childMap_push_fold [of categories Map.empty i] by (simp add: kidsOf_def childMapOf_def)

lemma memo_ok_empty: "memo_ok childMap direct Map.empty"
  by (simp add: memo_ok_def)

lemma seconds_at_Num: "m k = Some (Num v) \<Longrightarrow> seconds_at m k = v"
  by (simp add: seconds_at_def)

lemma sum_map_le:
  assumes "m \<subseteq>\<^sub>m m'" and "set ks \<subseteq> dom m"
  shows "(\<Sum>k\<leftarrow>ks. seconds_at m' k) = (\<Sum>k\<leftarrow>ks. seconds_at m k)"
proof -
  have "seconds_at m' k = seconds_at m k" if "k \<in> set ks" for k
  proof -
    from that assms(2) obtain v where "m k = Some v" by auto
    moreover from this assms(1) have "m' k = Some v" by (auto simp add: map_le_def dom_def)
    ultimately show ?thesis by (simp add: seconds_at_def)
  qed
  then show ?thesis by (intro arg_cong [where f = sum_list] map_cong) auto
qed

text \<open>Storing the total of \<open>i\<close> keeps the invariant; when \<open>i\<close> already has an entry,
  the invariant makes it equal to the total.\<close>

lemma memo_ok_update:
  assumes ok: "memo_ok childMap direct m"
      and kids: "set (kidsOf childMap i) \<subseteq> dom m"
      and t: "t = seconds_at direct i + (\<Sum>k\<leftarrow>kidsOf childMap i. seconds_at m k)"
  shows "memo_ok childMap direct (m(i \<mapsto> Num t))"
proof (cases "m i")
  case (Some v)
  then have "v = Num t" using ok t by (simp add: memo_ok_def)
  then have "m(i \<mapsto> Num t) = m" using Some by (simp add: fun_upd_idem)
  then show ?thesis using ok by simp
next
  case None
  have same: "(\<Sum>k\<leftarrow>ks. seconds_at (m(i \<mapsto> Num t)) k) = (\<Sum>k\<leftarrow>ks. seconds_at m k)"
    if "set ks \<subseteq> dom m" for ks
  proof -
    have "i \<notin> set ks" using that None by auto
    then show ?thesis
      by (intro arg_cong [where f = sum_list] map_cong) (auto simp add: seconds_at_def)
  qed
  show ?thesis
    unfolding memo_ok_def
  proof (intro allI impI)
    fix j v
    assume j: "(m(i \<mapsto> Num t)) j = Some v"
    show "set (kidsOf childMap j) \<subseteq> dom (m(i \<mapsto> Num t))
          \<and> v = Num (seconds_at direct j + (\<Sum>k\<leftarrow>kidsOf childMap j. seconds_at (m(i \<mapsto> Num t)) k))"
    proof (cases "j = i")
      case True
      then have "v = Num t" using j by simp
      then show ?thesis using True kids t same [OF kids] by auto
    next
      case False
      then have mj: "m j = Some v" using j by simp
      then have sub: "set (kidsOf childMap j) \<subseteq> dom m"
        and v: "v = Num (seconds_at direct j + (\<Sum>k\<leftarrow>kidsOf childMap j. seconds_at m k))"
        using ok by (simp_all add: memo_ok_def)
      show ?thesis using sub v same [OF sub] by auto
    qed
  qed
qed

text \<open>Total correctness: when no chain of kids descends for ever, \<open>dfs\<close> returns, and
  so do the loop over the kids and the loop over the ids.\<close>

lemma sumKids_total:
  assumes step: "\<And>k m. k \<in> set ks \<Longrightarrow> memo_ok childMap direct m \<Longrightarrow>
                   dfs_post childMap direct m k (call m k)"
      and ok: "memo_ok childMap direct memo"
  shows "\<exists>t' memo'. sumKids call ks (Num t, memo) = Some (Inr (Num t', memo'))
           \<and> memo_ok childMap direct memo' \<and> memo \<subseteq>\<^sub>m memo' \<and> set ks \<subseteq> dom memo'
           \<and> t' = t + (\<Sum>k\<leftarrow>ks. seconds_at memo' k)"
  using assms
proof (induction ks arbitrary: t memo)
  case Nil
  then show ?case by simp
next
  case (Cons k ks)
  from Cons.prems(1) [of k memo] Cons.prems(2)
  obtain v m1 where call: "call memo k = Some (Inr (Num v, m1))"
    and ok1: "memo_ok childMap direct m1"
    and le1: "memo \<subseteq>\<^sub>m m1" and k1: "m1 k = Some (Num v)"
    by (auto simp add: dfs_post_def)
  have "\<exists>t' memo'. sumKids call ks (Num (t + v), m1) = Some (Inr (Num t', memo'))
           \<and> memo_ok childMap direct memo' \<and> m1 \<subseteq>\<^sub>m memo' \<and> set ks \<subseteq> dom memo'
           \<and> t' = (t + v) + (\<Sum>k\<leftarrow>ks. seconds_at memo' k)"
    using Cons.prems(1) ok1 by (intro Cons.IH) auto
  then obtain t' m2 where rest: "sumKids call ks (Num (t + v), m1) = Some (Inr (Num t', m2))"
    and ok2: "memo_ok childMap direct m2" and le2: "m1 \<subseteq>\<^sub>m m2" and sub2: "set ks \<subseteq> dom m2"
    and t': "t' = (t + v) + (\<Sum>k\<leftarrow>ks. seconds_at m2 k)"
    by blast
  have k2: "m2 k = Some (Num v)" using k1 le2 by (auto simp add: map_le_def dom_def)
  have "sumKids call (k # ks) (Num t, memo) = Some (Inr (Num t', m2))"
    using call rest by (simp add: js_add_def)
  moreover have "memo \<subseteq>\<^sub>m m2" using le1 le2 by (rule map_le_trans)
  moreover have "set (k # ks) \<subseteq> dom m2" using sub2 k2 by auto
  moreover have "t' = t + (\<Sum>k\<leftarrow>k # ks. seconds_at m2 k)"
    using t' k2 by (simp add: seconds_at_Num)
  ultimately show ?case using ok2 by blast
qed

lemma dfs_total:
  assumes wf: "wf {(k, i). k \<in> set (kidsOf childMap i)}"
      and closed: "\<And>i. i \<in> S \<Longrightarrow> set (kidsOf childMap i) \<subseteq> S"
      and plain: "S \<inter> set objectPrototypeKeys = {}"
      and numeric: "\<And>i. i \<in> S \<Longrightarrow> nullish_value (js_get direct i) (Num 0) = Num (seconds_at direct i)"
  shows "i \<in> S \<Longrightarrow> memo_ok childMap direct memo
           \<Longrightarrow> dfs_post childMap direct memo i (dfs childMap direct memo i)"
  using wf
proof (induction i arbitrary: memo rule: wf_induct_rule)
  case (less i)
  have i: "i \<notin> set objectPrototypeKeys" using less.prems(1) plain by auto
  show ?case
  proof (cases "memo i")
    case (Some v)
    then have "dfs childMap direct memo i = Some (Inr (v, memo))"
      by (subst dfs.simps) (simp add: js_get_plain [OF i])
    moreover obtain x where "v = Num x" using less.prems(2) Some by (auto simp add: memo_ok_def)
    ultimately show ?thesis using less.prems Some by (simp add: dfs_post_def)
  next
    case None
    have "\<exists>t' memo'. sumKids (dfs childMap direct) (kidsOf childMap i) (Num (seconds_at direct i), memo)
              = Some (Inr (Num t', memo'))
           \<and> memo_ok childMap direct memo' \<and> memo \<subseteq>\<^sub>m memo' \<and> set (kidsOf childMap i) \<subseteq> dom memo'
           \<and> t' = seconds_at direct i + (\<Sum>k\<leftarrow>kidsOf childMap i. seconds_at memo' k)"
      using less.IH less.prems closed by (intro sumKids_total) auto
    then obtain t' m' where
      loop: "sumKids (dfs childMap direct) (kidsOf childMap i) (Num (seconds_at direct i), memo)
               = Some (Inr (Num t', m'))"
      and ok': "memo_ok childMap direct m'" and le': "memo \<subseteq>\<^sub>m m'"
      and sub': "set (kidsOf childMap i) \<subseteq> dom m'"
      and t': "t' = seconds_at direct i + (\<Sum>k\<leftarrow>kidsOf childMap i. seconds_at m' k)"
      by blast
    have "js_get memo i = Undefined"
      using None by (simp add: js_get_plain [OF i])
    then have res: "dfs childMap direct memo i = Some (Inr (Num t', m'(i \<mapsto> Num t')))"
      using loop
      by (subst dfs.simps)
        (simp add: iterable_kidsOf [OF i] numeric [OF less.prems(1)] js_set_plain [OF i])
    have "memo_ok childMap direct (m'(i \<mapsto> Num t'))"
      using ok' sub' t' by (rule memo_ok_update)
    moreover have "memo \<subseteq>\<^sub>m m'(i \<mapsto> Num t')"
      using le' None by (auto simp add: map_le_def dom_def)
    ultimately show ?thesis using res by (simp add: dfs_post_def)
  qed
qed

lemma forEach_dfs_total:
  assumes step: "\<And>i m. i \<in> set ids \<Longrightarrow> memo_ok childMap direct m
                   \<Longrightarrow> dfs_post childMap direct m i (call m i)"
      and ok: "memo_ok childMap direct memo"
  shows "\<exists>memo'. forEach_dfs call ids memo = Some (Inr memo')
           \<and> memo_ok childMap direct memo' \<and> memo \<subseteq>\<^sub>m memo' \<and> set ids \<subseteq> dom memo'"
  using assms
proof (induction ids arbitrary: memo)
  case Nil
  then show ?case by simp
next
  case (Cons i ids)
  from Cons.prems(1) [of i memo] Cons.prems(2)
  obtain v m1 where call: "call memo i = Some (Inr (Num v, m1))"
    and ok1: "memo_ok childMap direct m1"
    and le1: "memo \<subseteq>\<^sub>m m1" and i1: "m1 i = Some (Num v)"
    by (auto simp add: dfs_post_def)
  have "\<exists>memo'. forEach_dfs call ids m1 = Some (Inr memo')
           \<and> memo_ok childMap direct memo' \<and> m1 \<subseteq>\<^sub>m memo' \<and> set ids \<subseteq> dom memo'"
    using Cons.prems(1) ok1 by (intro Cons.IH) auto
  then obtain m2 where rest: "forEach_dfs call ids m1 = Some (Inr m2)"
    and ok2: "memo_ok childMap direct m2"
    and le2: "m1 \<subseteq>\<^sub>m m2" and sub2: "set ids \<subseteq> dom m2"
    by blast
  have "m2 i = Some (Num v)" using i1 le2 by (auto simp add: map_le_def dom_def)
  then have "set (i # ids) \<subseteq> dom m2" using sub2 by auto
  moreover have "memo \<subseteq>\<^sub>m m2" using le1 le2 by (rule map_le_trans)
  moreover have "forEach_dfs call (i # ids) memo = Some (Inr m2)" using call rest by simp
  ultimately show ?case using ok2 by blast
qed

text \<open>The kid graph holds the parent graph, and it is well-founded when the parent graph is
  acyclic and no category has the key of the roots as its id.\<close>

lemma parentEdges_iff:
  "(k, p) \<in> set (parentEdges categories) \<longleftrightarrow> (\<exists>c\<in>set categories. id_c c = k \<and> parentId c = Some p)"
  by (induction categories) (auto simp add: parentEdges_def split: option.splits)

lemma kidEdges_childMapOf:
  "(k, i) \<in> kidEdges (childMapOf categories) \<longleftrightarrow> (\<exists>c\<in>set categories. id_c c = k \<and> parentKey c = i)"
  by (auto simp add: kidEdges_def kidsOf_childMapOf)

lemma parentEdges_subset_kidEdges:
  "set (parentEdges categories) \<subseteq> kidEdges (childMapOf categories)"
  by (fastforce simp add: parentEdges_iff kidEdges_childMapOf parentKey_def)

lemma wf_kidEdges:
  assumes acyc: "acyclic (set (parentEdges categories))"
      and sentinel: "''__root__'' \<notin> set (map id_c categories)"
  shows "wf (kidEdges (childMapOf categories))"
proof -
  let ?R = "set (parentEdges categories)"
  let ?S = "{(k, i). i = ''__root__'' \<and> k \<in> set (map id_c categories)}"
  have sentinel': "id_c c \<noteq> ''__root__''" if "c \<in> set categories" for c
    using that sentinel by force
  have wfR: "wf ?R" using acyc by (intro finite_acyclic_wf) simp_all
  have "?S \<subseteq> measure (\<lambda>x. if x = ''__root__'' then 1 else 0)"
    using sentinel' by auto
  then have wfS: "wf ?S" by (rule wf_subset [OF wf_measure])
  have "Domain ?R \<inter> Range ?S = {}"
    using sentinel' by (auto simp add: parentEdges_iff)
  then have "wf (?R \<union> ?S)" using wfR wfS by (intro wf_Un)
  moreover have "kidEdges (childMapOf categories) \<subseteq> ?R \<union> ?S"
    by (auto simp add: kidEdges_childMapOf parentEdges_iff parentKey_def nullish_def
        split: option.splits)
  ultimately show ?thesis by (rule wf_subset)
qed

lemma set_id_set: "set (id_set categories) = set (map id_c categories)"
  by (simp add: id_set_def)

lemma numeric_read:
  assumes "i \<notin> set objectPrototypeKeys" and "\<And>v. direct i = Some v \<Longrightarrow> \<exists>n. v = Num n"
  shows "nullish_value (js_get direct i) (Num 0) = Num (seconds_at direct i)"
proof (cases "direct i")
  case None
  then show ?thesis by (simp add: js_get_plain [OF assms(1)] nullish_value_def seconds_at_def)
next
  case (Some v)
  with assms(2) obtain n where "v = Num n" by blast
  then show ?thesis
    using Some by (simp add: js_get_plain [OF assms(1)] nullish_value_def seconds_at_def)
qed

lemma rollupSeconds_total:
  assumes wf: "wf (kidEdges (childMapOf categories))"
      and keys: "\<And>c. c \<in> set categories \<Longrightarrow>
                   id_c c \<notin> set objectPrototypeKeys \<and> parentKey c \<notin> set objectPrototypeKeys"
      and numeric: "\<And>c v. c \<in> set categories \<Longrightarrow> direct (id_c c) = Some v \<Longrightarrow> \<exists>n. v = Num n"
  shows "\<exists>rolled. rollupSeconds categories direct = Some (Inr rolled)
           \<and> memo_ok (childMapOf categories) direct rolled
           \<and> set (map id_c categories) \<subseteq> dom rolled"
proof -
  let ?cm = "childMapOf categories"
  let ?S = "set (map id_c categories)"
  have cm: "buildChildMap categories = Inr ?cm"
    using keys by (auto simp add: buildChildMap_cases)
  have "\<exists>memo'. forEach_dfs (dfs ?cm direct) (id_set categories) Map.empty = Some (Inr memo')
           \<and> memo_ok ?cm direct memo' \<and> Map.empty \<subseteq>\<^sub>m memo'
           \<and> set (id_set categories) \<subseteq> dom memo'"
  proof (rule forEach_dfs_total)
    show "memo_ok ?cm direct Map.empty" by (rule memo_ok_empty)
  next
    fix i m
    assume i: "i \<in> set (id_set categories)" and ok: "memo_ok ?cm direct m"
    show "dfs_post ?cm direct m i (dfs ?cm direct m i)"
    proof (rule dfs_total [where S = ?S])
      show "wf {(k, i). k \<in> set (kidsOf ?cm i)}" using wf by (simp add: kidEdges_def)
      show "set (kidsOf ?cm j) \<subseteq> ?S" for j by (auto simp add: kidsOf_childMapOf)
      show "?S \<inter> set objectPrototypeKeys = {}" using keys by auto
      show "nullish_value (js_get direct j) (Num 0) = Num (seconds_at direct j)" if "j \<in> ?S" for j
        using that keys numeric by (intro numeric_read) auto
      show "i \<in> ?S" using i by (simp add: set_id_set)
      show "memo_ok ?cm direct m" by (rule ok)
    qed
  qed
  then show ?thesis
    by (auto simp add: rollupSeconds_def cm Let_def set_id_set)
qed

lemma kidsOf_not_sentinel:
  assumes "i \<noteq> ''__root__''"
  shows "kidsOf (childMapOf categories) i = map id_c (filter (\<lambda>c. parentId c = Some i) categories)"
proof -
  have "(parentKey c = i) = (parentId c = Some i)" for c
    using assms by (cases "parentId c") (simp_all add: parentKey_def)
  then show ?thesis by (simp add: kidsOf_childMapOf)
qed

text \<open>Partial correctness, by fixpoint induction: a call that returns on a memo with no
  entry in a kid-closed set of plain keys was not made on a member of the set, throws
  nothing and returns such a memo. The ids on a cycle of the kid graph form such a set, so
  \<open>rollupSeconds\<close> does not return when the kid graph has a cycle.\<close>

lemma sumKids_avoids:
  assumes call: "\<And>m k r. call m k = Some r \<Longrightarrow> dom m \<inter> B = {}
                   \<Longrightarrow> k \<notin> B \<and> (\<exists>vm. r = Inr vm \<and> dom (snd vm) \<inter> B = {})"
      and "sumKids call ks acc = Some r" and "dom (snd acc) \<inter> B = {}"
  shows "set ks \<inter> B = {} \<and> (\<exists>vm. r = Inr vm \<and> dom (snd vm) \<inter> B = {})"
  using assms(2,3)
proof (induction ks arbitrary: acc)
  case Nil
  then have "r = Inr acc" by simp
  moreover have "set [] \<inter> B = {}" by simp
  ultimately show ?case using Nil.prems(2) by (intro conjI exI [of _ acc])
next
  case (Cons k ks)
  from Cons.prems(1) obtain r1 where c1: "call (snd acc) k = Some r1"
    and rest1: "(case r1 of Inl e \<Rightarrow> Some (Inl e)
                 | Inr vm \<Rightarrow> sumKids call ks (js_add (fst acc) (fst vm), snd vm)) = Some r"
    by (auto simp add: bind_eq_Some_conv)
  from call [OF c1 Cons.prems(2)] obtain vm where k: "k \<notin> B" and r1: "r1 = Inr vm"
    and d1: "dom (snd vm) \<inter> B = {}" by auto
  have rest: "sumKids call ks (js_add (fst acc) (fst vm), snd vm) = Some r"
    using rest1 r1 by simp
  from Cons.IH [OF rest] d1 have "set ks \<inter> B = {} \<and> (\<exists>vm. r = Inr vm \<and> dom (snd vm) \<inter> B = {})"
    by simp
  then show ?case using k by auto
qed

lemma dfs_avoids:
  assumes closed: "kid_closed childMap B" and plain: "B \<inter> set objectPrototypeKeys = {}"
      and "dfs childMap direct memo i = Some r" and "dom memo \<inter> B = {}"
  shows "i \<notin> B \<and> (\<exists>vm. r = Inr vm \<and> dom (snd vm) \<inter> B = {})"
proof -
  have "kid_closed childMap B \<longrightarrow> dom memo \<inter> B = {}
          \<longrightarrow> i \<notin> B \<and> (\<exists>vm. r = Inr vm \<and> dom (snd vm) \<inter> B = {})"
  proof (rule dfs.raw_induct
      [where P = "\<lambda>childMap direct memo i r.
          kid_closed childMap B \<longrightarrow> dom memo \<inter> B = {}
            \<longrightarrow> i \<notin> B \<and> (\<exists>vm. r = Inr vm \<and> dom (snd vm) \<inter> B = {})",
        OF _ assms(3)])
    fix dfs' :: "(string \<rightharpoonup> string list) \<Rightarrow> jsobject \<Rightarrow> jsobject \<Rightarrow> string
                   \<Rightarrow> (error + jsvalue \<times> jsobject) option"
    fix childMap direct memo i r
    assume IH: "\<And>childMap direct memo i r. dfs' childMap direct memo i = Some r \<Longrightarrow>
        kid_closed childMap B \<longrightarrow> dom memo \<inter> B = {}
          \<longrightarrow> i \<notin> B \<and> (\<exists>vm. r = Inr vm \<and> dom (snd vm) \<inter> B = {})"
    assume body: "(case js_get memo i of
        Undefined \<Rightarrow>
          (case iterable (js_get childMap i) of
             Inl e \<Rightarrow> Some (Inl e)
           | Inr kids \<Rightarrow>
               sumKids (dfs' childMap direct) kids
                 (nullish_value (js_get direct i) (Num 0), memo) \<bind>
               (\<lambda>r. Some (case r of Inl e \<Rightarrow> Inl e
                           | Inr tm \<Rightarrow> Inr (fst tm, js_set (snd tm) i (fst tm)))))
      | Own v \<Rightarrow> Some (Inr (v, memo))
      | Inherited \<Rightarrow> Some (Inr (ProtoMember, memo))) = Some r"
    show "kid_closed childMap B \<longrightarrow> dom memo \<inter> B = {}
            \<longrightarrow> i \<notin> B \<and> (\<exists>vm. r = Inr vm \<and> dom (snd vm) \<inter> B = {})"
    proof (intro impI)
      assume closed: "kid_closed childMap B" and dis: "dom memo \<inter> B = {}"
      show "i \<notin> B \<and> (\<exists>vm. r = Inr vm \<and> dom (snd vm) \<inter> B = {})"
      proof (cases "js_get memo i")
        case (Own v)
        then have "r = Inr (v, memo)" using body by simp
        moreover have "i \<notin> B" using Own dis by (auto simp add: js_get_Own)
        ultimately show ?thesis using dis by simp
      next
        case Inherited
        then have "r = Inr (ProtoMember, memo)" using body by simp
        moreover have "i \<notin> B" using js_get_Inherited [OF Inherited] plain by auto
        ultimately show ?thesis using dis by simp
      next
        case Undefined
        then have i: "i \<notin> set objectPrototypeKeys" by (simp add: js_get_Undefined)
        from body obtain r' where
          loop: "sumKids (dfs' childMap direct) (kidsOf childMap i)
                   (nullish_value (js_get direct i) (Num 0), memo) = Some r'"
          and r: "r = (case r' of Inl e \<Rightarrow> Inl e
                       | Inr tm \<Rightarrow> Inr (fst tm, js_set (snd tm) i (fst tm)))"
          by (auto simp add: Undefined iterable_kidsOf [OF i] bind_eq_Some_conv)
        have "set (kidsOf childMap i) \<inter> B = {} \<and> (\<exists>vm. r' = Inr vm \<and> dom (snd vm) \<inter> B = {})"
        proof (rule sumKids_avoids [OF _ loop])
          fix m k r1
          assume "dfs' childMap direct m k = Some r1" and "dom m \<inter> B = {}"
          then show "k \<notin> B \<and> (\<exists>vm. r1 = Inr vm \<and> dom (snd vm) \<inter> B = {})"
            using IH closed by blast
        qed (use dis in simp)
        then obtain vm where kids: "set (kidsOf childMap i) \<inter> B = {}" and r': "r' = Inr vm"
          and d': "dom (snd vm) \<inter> B = {}"
          by blast
        have "i \<notin> B" using closed kids by (auto simp add: kid_closed_def)
        then show ?thesis using d' r r' by (auto simp add: js_set_plain [OF i])
      qed
    qed
  qed
  then show ?thesis using assms(1,4) by blast
qed

lemma forEach_dfs_avoids:
  assumes call: "\<And>m k r. call m k = Some r \<Longrightarrow> dom m \<inter> B = {}
                   \<Longrightarrow> k \<notin> B \<and> (\<exists>vm. r = Inr vm \<and> dom (snd vm) \<inter> B = {})"
      and "forEach_dfs call ids memo = Some r" and "dom memo \<inter> B = {}"
  shows "set ids \<inter> B = {}"
  using assms(2,3)
proof (induction ids arbitrary: memo)
  case Nil
  then show ?case by simp
next
  case (Cons i ids)
  from Cons.prems(1) obtain r1 where c1: "call memo i = Some r1"
    and rest1: "(case r1 of Inl e \<Rightarrow> Some (Inl e)
                 | Inr vm \<Rightarrow> forEach_dfs call ids (snd vm)) = Some r"
    by (auto simp add: bind_eq_Some_conv)
  from call [OF c1 Cons.prems(2)] obtain vm where i: "i \<notin> B" and r1: "r1 = Inr vm"
    and d1: "dom (snd vm) \<inter> B = {}" by auto
  have rest: "forEach_dfs call ids (snd vm) = Some r" using rest1 r1 by simp
  from Cons.IH [OF rest d1] i show ?case by auto
qed

lemma cycle_kid_closed:
  "kid_closed childMap {i. (i, i) \<in> (kidEdges childMap)\<^sup>+}"
  unfolding kid_closed_def
proof
  fix i
  assume "i \<in> {i. (i, i) \<in> (kidEdges childMap)\<^sup>+}"
  then have "(i, i) \<in> (kidEdges childMap)\<^sup>+" by simp
  then obtain k where ik: "(i, k) \<in> (kidEdges childMap)\<^sup>*" and ki: "(k, i) \<in> kidEdges childMap"
    by (auto dest: tranclD2)
  have "(k, k) \<in> (kidEdges childMap)\<^sup>+" using ki ik by (rule rtrancl_into_trancl2)
  moreover have "k \<in> set (kidsOf childMap i)" using ki by (simp add: kidEdges_def)
  ultimately show "\<exists>k\<in>set (kidsOf childMap i). k \<in> {i. (i, i) \<in> (kidEdges childMap)\<^sup>+}"
    by blast
qed

lemma rollupSeconds_cycle:
  assumes cyc: "(i, i) \<in> (kidEdges (childMapOf categories))\<^sup>+"
  shows "rollupSeconds categories direct =
           (if \<exists>c\<in>set categories. parentKey c \<in> set objectPrototypeKeys
            then Some (Inl TypeError) else None)"
proof (cases "\<exists>c\<in>set categories. parentKey c \<in> set objectPrototypeKeys")
  case True
  then show ?thesis by (simp add: rollupSeconds_def buildChildMap_cases)
next
  case False
  let ?cm = "childMapOf categories"
  let ?B = "{i. (i, i) \<in> (kidEdges ?cm)\<^sup>+}"
  have cm: "buildChildMap categories = Inr ?cm"
    using False by (simp add: buildChildMap_cases)
  have plain: "?B \<inter> set objectPrototypeKeys = {}"
  proof -
    have "j \<notin> set objectPrototypeKeys" if "(j, j) \<in> (kidEdges ?cm)\<^sup>+" for j
    proof -
      from that obtain k where "(k, j) \<in> kidEdges ?cm" by (auto dest: tranclD2)
      then show ?thesis using False by (auto simp add: kidEdges_childMapOf)
    qed
    then show ?thesis by auto
  qed
  have "rollupSeconds categories direct = None"
  proof (rule ccontr)
    assume "rollupSeconds categories direct \<noteq> None"
    then obtain r where
      r: "forEach_dfs (dfs ?cm direct) (id_set categories) Map.empty = Some r"
      by (auto simp add: rollupSeconds_def cm Let_def)
    have "set (id_set categories) \<inter> ?B = {}"
    proof (rule forEach_dfs_avoids [OF _ r])
      fix m k r1
      assume "dfs ?cm direct m k = Some r1" and "dom m \<inter> ?B = {}"
      then show "k \<notin> ?B \<and> (\<exists>vm. r1 = Inr vm \<and> dom (snd vm) \<inter> ?B = {})"
        by (rule dfs_avoids [OF cycle_kid_closed plain])
    qed simp
    moreover have "i \<in> ?B" using cyc by simp
    moreover have "i \<in> set (id_set categories)"
    proof -
      from cyc obtain z where "(i, z) \<in> kidEdges ?cm" by (auto dest: tranclD)
      then show ?thesis by (auto simp add: kidEdges_childMapOf set_id_set)
    qed
    ultimately show False by blast
  qed
  then show ?thesis using False by simp
qed

lemma parentEdges_cycleAB: "set (parentEdges cycleAB) = {(''A'', ''B''), (''B'', ''A'')}"
  by (simp add: parentEdges_def cycleAB_def test_category_def)

lemma cycleAB_cycle: "(''A'', ''A'') \<in> (set (parentEdges cycleAB))\<^sup>+"
proof -
  have "(''A'', ''B'') \<in> set (parentEdges cycleAB)" "(''B'', ''A'') \<in> set (parentEdges cycleAB)"
    by (simp_all add: parentEdges_cycleAB)
  then show ?thesis by (rule r_r_into_trancl)
qed

section \<open>The claims\<close>

subsection \<open>C1: a cycle in the parent graph\<close>

text \<open>
  C1 has \<open>rollupSeconds\<close> end with the fault CycleDetected on a snapshot whose parent
  graph has a cycle. \<open>dfs\<close> has no guard against a chain that returns to an id in progress:
  on the categories \<open>A\<close> with parent \<open>B\<close> and \<open>B\<close> with parent \<open>A\<close> the
  recursion never returns (a JavaScript engine ends it when the call stack is full).
\<close>

theorem C1_two_cycle_counterexample:
  "rollupSeconds cycleAB Map.empty = None"
proof -
  have "(''A'', ''A'') \<in> (kidEdges (childMapOf cycleAB))\<^sup>+"
    using cycleAB_cycle trancl_mono_subset [OF parentEdges_subset_kidEdges] by blast
  moreover have "\<not> (\<exists>c\<in>set cycleAB. parentKey c \<in> set objectPrototypeKeys)"
    by (simp add: cycleAB_def test_category_def parentKey_def objectPrototypeKeys_def)
  ultimately show ?thesis
    using rollupSeconds_cycle [of "''A''" cycleAB Map.empty] by simp
qed

text \<open>
  C1, amended: for every category snapshot whose parent graph contains a cycle and every
  direct-seconds mapping, \<open>rollupSeconds\<close> returns no mapping and raises no fault
  CycleDetected. When a parent id of the snapshot is the name of a property inherited from
  \<^verbatim>\<open>Object.prototype\<close>, \<open>buildChildMap\<close> throws a \<^verbatim>\<open>TypeError\<close>; otherwise the
  recursion of \<open>dfs\<close> does not end.
\<close>

theorem C1_rollup_cyclic:
  assumes "\<not> acyclic (set (parentEdges categories))"
  shows "rollupSeconds categories direct =
           (if \<exists>c\<in>set categories. \<exists>p. parentId c = Some p \<and> p \<in> set objectPrototypeKeys
            then Some (Inl TypeError) else None)"
proof -
  from assms obtain i where "(i, i) \<in> (set (parentEdges categories))\<^sup>+"
    by (auto simp add: acyclic_def)
  then have "(i, i) \<in> (kidEdges (childMapOf categories))\<^sup>+"
    using trancl_mono_subset [OF parentEdges_subset_kidEdges] by blast
  from rollupSeconds_cycle [OF this, of direct] show ?thesis
    by (simp only: parentKey_inherited)
qed

theorem C1_rollup_cyclic_witness:
  "\<not> acyclic (set (parentEdges cycleAB)) \<and> rollupSeconds cycleAB [''A'' \<mapsto> Num 5] = None"
proof -
  have h: "\<not> acyclic (set (parentEdges cycleAB))"
    using cycleAB_cycle by (auto simp add: acyclic_def)
  have "\<not> (\<exists>c\<in>set cycleAB. \<exists>p. parentId c = Some p \<and> p \<in> set objectPrototypeKeys)"
    by (simp add: cycleAB_def test_category_def objectPrototypeKeys_def)
  then show ?thesis
    using h C1_rollup_cyclic [OF h, of "[''A'' \<mapsto> Num 5]"] by simp
qed

subsection \<open>C2: the direct seconds in closed form\<close>

text \<open>
  C2 has every active goal timer add \<open>floor((now - lastResume) / 1000)\<close> to its
  accumulated seconds. The code reads \<^verbatim>\<open>g.isActive && g.lastStartTime\<close>: a
  \<^verbatim>\<open>lastStartTime\<close> of 0, the epoch, is falsy as an absent one is, and the
  elapsed seconds are then 0. An active timer resumed at the instant 0 with 5 accumulated
  seconds adds 5 at \<open>now = 10000\<close>, where the formula of the specification gives 15.
  C2 is also stated for every category: \<^verbatim>\<open>totals\<close> is an object created by
  \<^verbatim>\<open>{}\<close>, and for a session of 10 seconds on the category \<^verbatim>\<open>"constructor"\<close> the
  read \<^verbatim>\<open>totals[k] ?? 0\<close> gives the inherited member, so that the entry is a string and
  not 10.
\<close>

theorem C2_direct_seconds_counterexample:
  "computeDirectSeconds (\<lambda>_. 10000) [] 0 10000
       (Some [test_goal ''c'' (Some 5) (Some True) (Some 0)]) ''c'' = Some (Num 5)
   \<and> spec_goalTotal 10000 (test_goal ''c'' (Some 5) (Some True) (Some 0)) = 15
   \<and> computeDirectSeconds (\<lambda>_. 90000) constructorSession 0 60000 None ''constructor'' = Some Str"
  by (simp add: direct_seconds_eval spec_goalTotal_def spec_liveElapsed_def constructorSession_def)

text \<open>
  C2, amended: when every reading of the clock within the call is \<open>now\<close>, the direct
  seconds of a category \<open>c\<close> whose id is not the name of a property inherited from
  \<^verbatim>\<open>Object.prototype\<close> (read as \<^verbatim>\<open>totals[c] ?? 0\<close>) are the number that is the sum
  over the sessions of \<open>c\<close> of \<open>overlap(start, end ?? now, windowStart, windowEnd) / 1000\<close>,
  plus the sum over the goal timers of \<open>c\<close> of the full total
  \<open>accumulated + liveElapsed\<close> whenever it is positive, with no window filtering, where
  \<open>liveElapsed\<close> is \<open>floor((now - lastStartTime) / 1000)\<close> for an active timer whose
  \<^verbatim>\<open>lastStartTime\<close> is present and not 0, and 0 otherwise.
\<close>

theorem C2_direct_seconds_closed_form:
  assumes "c \<notin> set objectPrototypeKeys"
  shows "nullish_value
           (js_get (computeDirectSeconds (\<lambda>_. now) sessions windowStart windowEnd goals) c) (Num 0) =
     Num ((\<Sum>s\<leftarrow>filter (\<lambda>s. categoryId s = c) sessions.
             overlapMs (start s) (nullish (end_s s) now) windowStart windowEnd / 1000)
          + (\<Sum>g\<leftarrow>filter (\<lambda>g. categoryId_g g = c) (case goals of None \<Rightarrow> [] | Some gs \<Rightarrow> gs).
             let liveElapsed =
                   (if isActive g = Some True \<and> lastStartTime g \<noteq> None \<and> lastStartTime g \<noteq> Some 0
                    then of_int \<lfloor>(now - nullish (lastStartTime g) 0) / 1000\<rfloor> else 0);
                 total' = nullish (totalSeconds g) 0 + liveElapsed
             in if total' > 0 then total' else 0))"
proof -
  let ?sessionLoop = "accumulate running categoryId
      (\<lambda>now s. sessionMs windowStart windowEnd now s / 1000) (\<lambda>_. now) sessions (0, Map.empty)"
  let ?gs = "case goals of None \<Rightarrow> [] | Some gs \<Rightarrow> gs"
  have s: "(if 0 < sessionMs windowStart windowEnd now s
            then sessionMs windowStart windowEnd now s / 1000 else 0)
         = overlapMs (start s) (nullish (end_s s) now) windowStart windowEnd / 1000" for s
    using overlapMs_nonneg [of "start s" "nullish (end_s s) now" windowStart windowEnd]
    by (auto simp add: sessionMs_def)
  have g: "goalTotal now g = nullish (totalSeconds g) 0 +
             (if isActive g = Some True \<and> lastStartTime g \<noteq> None \<and> lastStartTime g \<noteq> Some 0
              then of_int \<lfloor>(now - nullish (lastStartTime g) 0) / 1000\<rfloor> else 0)" for g
    by (cases "lastStartTime g") (simp_all add: goalTotal_def currentElapsed_def or_number_nullish)
  have "read0 (snd (0::nat, Map.empty :: jsobject)) c = Num 0"
    by (simp add: read0_def js_get_def nullish_value_def assms)
  from accumulate_value_pair
    [where reads = running and key = categoryId and now = now and xs = sessions
       and w = "\<lambda>now s. sessionMs windowStart windowEnd now s / 1000", OF assms this]
  have "read0 (snd ?sessionLoop) c
      = Num (\<Sum>s\<leftarrow>filter (\<lambda>s. categoryId s = c) sessions.
               overlapMs (start s) (nullish (end_s s) now) windowStart windowEnd / 1000)"
    by (simp add: s cong: if_cong)
  from accumulate_value_pair
    [where reads = ticking and key = categoryId_g and now = now and xs = ?gs and w = goalTotal,
      OF assms this]
  show ?thesis
    unfolding computeDirectSeconds_accumulate read0_def
    by (simp add: g Let_def cong: if_cong)
qed

theorem C2_direct_seconds_closed_form_witness:
  "''a'' \<notin> set objectPrototypeKeys
   \<and> nullish_value (js_get (computeDirectSeconds (\<lambda>_. 90000) twoSessions 0 60000 pausedGoal) ''a'')
       (Num 0) = Num 10
   \<and> nullish_value (js_get (computeDirectSeconds (\<lambda>_. 90000) twoSessions 0 60000 pausedGoal) ''b'')
       (Num 0) = Num 7"
proof -
  have a: "''a'' \<notin> set objectPrototypeKeys" and b: "''b'' \<notin> set objectPrototypeKeys"
    by (simp_all add: objectPrototypeKeys_def)
  show ?thesis
    using a C2_direct_seconds_closed_form [OF a, of 90000 twoSessions 0 60000 pausedGoal]
      C2_direct_seconds_closed_form [OF b, of 90000 twoSessions 0 60000 pausedGoal]
    by (simp add: twoSessions_def pausedGoal_def test_session_def test_goal_def overlapMs_def
        Let_def)
qed

subsection \<open>C3: excluded categories in the goal sum\<close>

text \<open>
  C3 has the validation leave out every sibling whose exclude-from-goals flag is set. The
  stored rows carry the flag (\<^verbatim>\<open>exclude_from_goals\<close>), the conversion to a
  \<open>Category\<close> drops it, and the goal sums count every sibling: whatever the flags of
  the rows, the sum is the same. For the rows \<open>sleep\<close> (goal 40, excluded) and
  \<open>work\<close> (goal 70), editing \<open>work\<close> to 70 gives the sum 110 and an excess, where
  the sum of the siblings that are not excluded is 70.
\<close>

theorem C3_excluded_sibling_is_counted:
  "computeRootGoalSum (map toCategory (map (\<lambda>r. r\<lparr>exclude_from_goals := f r\<rparr>) rows)) ov
     = computeRootGoalSum (map toCategory rows) ov
   \<and> computeChildGoalSum (map toCategory (map (\<lambda>r. r\<lparr>exclude_from_goals := f r\<rparr>) rows)) p ov
     = computeChildGoalSum (map toCategory rows) p ov
   \<and> editorGoalCheck (map toCategory sleepWorkRows) (toCategory (sleepWorkRows ! 1)) 70 = (110, True)"
proof -
  have same: "map toCategory (map (\<lambda>r. r\<lparr>exclude_from_goals := f r\<rparr>) rows) = map toCategory rows"
    by (induction rows) (simp_all add: toCategory_def)
  have "editorGoalCheck (map toCategory sleepWorkRows) (toCategory (sleepWorkRows ! 1)) 70 = (110, True)"
    by (simp add: editorGoalCheck_def computeRootGoalSum_def sleepWorkRows_def test_row_def
        toCategory_def Let_def list_ex_iff_set)
  then show ?thesis
    unfolding same by simp
qed

subsection \<open>C4: the rolled seconds of an acyclic snapshot\<close>

text \<open>
  C4 is stated for every acyclic snapshot. \<open>buildChildMap\<close> files the root categories
  under the key \<^verbatim>\<open>"__root__"\<close>, so a category whose id is that string has the roots
  as its kids: the snapshot of one root category with the id \<^verbatim>\<open>"__root__"\<close> has no
  parent edge at all, and \<open>rollupSeconds\<close> does not return on it. The child map and the
  memo are objects created by \<^verbatim>\<open>{}\<close>: on the one category \<open>x\<close> with the parent id
  \<^verbatim>\<open>"constructor"\<close> \<open>buildChildMap\<close> throws a \<^verbatim>\<open>TypeError\<close>, and on the one root
  category with the id \<^verbatim>\<open>"constructor"\<close> the test \<^verbatim>\<open>memo[id] != null\<close> holds before
  anything is stored, so that the mapping returned has no entry for the id.
\<close>

theorem C4_reserved_ids_counterexample:
  "acyclic (set (parentEdges sentinelRoot)) \<and> rollupSeconds sentinelRoot Map.empty = None
   \<and> acyclic (set (parentEdges constructorParent))
   \<and> rollupSeconds constructorParent Map.empty = Some (Inl TypeError)
   \<and> acyclic (set (parentEdges constructorRoot))
   \<and> rollupSeconds constructorRoot Map.empty = Some (Inr Map.empty)"
proof -
  have "set (parentEdges sentinelRoot) = {}"
    by (simp add: parentEdges_def sentinelRoot_def test_category_def)
  then have a1: "acyclic (set (parentEdges sentinelRoot))"
    by (simp add: acyclic_def)
  have "(''__root__'', ''__root__'') \<in> kidEdges (childMapOf sentinelRoot)"
    by (simp add: kidEdges_childMapOf sentinelRoot_def test_category_def parentKey_def)
  then have "(''__root__'', ''__root__'') \<in> (kidEdges (childMapOf sentinelRoot))\<^sup>+"
    by (rule r_into_trancl)
  moreover have "\<not> (\<exists>c\<in>set sentinelRoot. parentKey c \<in> set objectPrototypeKeys)"
    by (simp add: sentinelRoot_def test_category_def parentKey_def objectPrototypeKeys_def)
  ultimately have r1: "rollupSeconds sentinelRoot Map.empty = None"
    using rollupSeconds_cycle [of "''__root__''" sentinelRoot Map.empty] by simp
  have edges: "set (parentEdges constructorParent) = {(''x'', ''constructor'')}"
    by (simp add: parentEdges_def constructorParent_def test_category_def)
  have a2: "acyclic (set (parentEdges constructorParent))"
    unfolding edges by (rule acyclicI_order [where f = "\<lambda>s. if s = ''x'' then 1::nat else 0"]) auto
  have r2: "rollupSeconds constructorParent Map.empty = Some (Inl TypeError)"
    by (simp add: rollupSeconds_def buildChildMap_def constructorParent_def test_category_def
        js_get_def objectPrototypeKeys_def Let_def)
  have "set (parentEdges constructorRoot) = {}"
    by (simp add: parentEdges_def constructorRoot_def test_category_def)
  then have a3: "acyclic (set (parentEdges constructorRoot))"
    by (simp add: acyclic_def)
  have r3: "rollupSeconds constructorRoot Map.empty = Some (Inr Map.empty)"
    by (simp add: rollupSeconds_def buildChildMap_def constructorRoot_def test_category_def
        js_get_def js_set_def objectPrototypeKeys_def Let_def id_set_def dfs.simps)
  show ?thesis using a1 r1 a2 r2 a3 r3 by blast
qed

text \<open>
  C4, amended: for every category snapshot whose parent graph is acyclic, in which no
  category has the id \<^verbatim>\<open>"__root__"\<close> and no id and no parent id is the name of a
  property inherited from \<^verbatim>\<open>Object.prototype\<close>, and for every direct-seconds mapping
  whose entries at the ids are numbers, \<open>rollupSeconds\<close> returns a mapping \<open>rolled\<close>
  with a number for every category id, where
  \<open>rolled(id) = direct(id) + \<close> the sum of \<open>rolled(child)\<close> over the categories whose
  parent is \<open>id\<close> (an id absent from \<open>direct\<close> counts 0); in particular
  \<open>rolled(id) = direct(id)\<close> for a leaf.
\<close>

theorem C4_rollup_acyclic:
  assumes "acyclic (set (parentEdges categories))"
      and "''__root__'' \<notin> set (map id_c categories)"
      and "\<forall>c\<in>set categories. id_c c \<notin> set objectPrototypeKeys
             \<and> (\<forall>p. parentId c = Some p \<longrightarrow> p \<notin> set objectPrototypeKeys)"
      and "\<forall>c\<in>set categories. \<forall>v. direct (id_c c) = Some v \<longrightarrow> (\<exists>n. v = Num n)"
  shows "\<exists>rolled. rollupSeconds categories direct = Some (Inr rolled)
           \<and> (\<forall>i\<in>set (map id_c categories).
                 rolled i = Some (Num (seconds_at direct i
                    + (\<Sum>c\<leftarrow>filter (\<lambda>c. parentId c = Some i) categories. seconds_at rolled (id_c c))))
                 \<and> (\<forall>c\<in>set categories. parentId c = Some i \<longrightarrow>
                       rolled (id_c c) = Some (Num (seconds_at rolled (id_c c))))
                 \<and> (isLeaf categories i \<longrightarrow> rolled i = Some (Num (seconds_at direct i))))"
proof -
  have keys: "id_c c \<notin> set objectPrototypeKeys \<and> parentKey c \<notin> set objectPrototypeKeys"
    if "c \<in> set categories" for c
    using that assms(3) by (auto simp add: parentKey_inherited)
  have numeric: "\<exists>n. v = Num n" if "c \<in> set categories" and "direct (id_c c) = Some v" for c v
    using that assms(4) by blast
  have "\<exists>rolled. rollupSeconds categories direct = Some (Inr rolled)
           \<and> memo_ok (childMapOf categories) direct rolled
           \<and> set (map id_c categories) \<subseteq> dom rolled"
    by (rule rollupSeconds_total [OF wf_kidEdges [OF assms(1,2)]]) (use keys numeric in blast)+
  then obtain rolled where r: "rollupSeconds categories direct = Some (Inr rolled)"
    and ok: "memo_ok (childMapOf categories) direct rolled"
    and ids: "set (map id_c categories) \<subseteq> dom rolled"
    by blast
  have num: "rolled j = Some (Num (seconds_at rolled j))" if j: "j \<in> set (map id_c categories)" for j
  proof -
    obtain v where v: "rolled j = Some v" using j ids by auto
    then obtain x where "v = Num x" using ok unfolding memo_ok_def by blast
    then show ?thesis using v by (simp add: seconds_at_def)
  qed
  have "rolled i = Some (Num (seconds_at direct i
                    + (\<Sum>c\<leftarrow>filter (\<lambda>c. parentId c = Some i) categories. seconds_at rolled (id_c c))))
        \<and> (\<forall>c\<in>set categories. parentId c = Some i \<longrightarrow>
              rolled (id_c c) = Some (Num (seconds_at rolled (id_c c))))
        \<and> (isLeaf categories i \<longrightarrow> rolled i = Some (Num (seconds_at direct i)))"
    if i: "i \<in> set (map id_c categories)" for i
  proof -
    have ne: "i \<noteq> ''__root__''" using i assms(2) by force
    obtain v where v: "rolled i = Some v" using i ids by auto
    have eq: "v = Num (seconds_at direct i
                 + (\<Sum>c\<leftarrow>filter (\<lambda>c. parentId c = Some i) categories. seconds_at rolled (id_c c)))"
    proof -
      from ok v have "v = Num (seconds_at direct i
          + (\<Sum>k\<leftarrow>kidsOf (childMapOf categories) i. seconds_at rolled k))"
        unfolding memo_ok_def by blast
      then show ?thesis by (simp add: kidsOf_not_sentinel [OF ne] comp_def)
    qed
    have kids: "\<forall>c\<in>set categories. parentId c = Some i \<longrightarrow>
                  rolled (id_c c) = Some (Num (seconds_at rolled (id_c c)))"
      using num by auto
    have "filter (\<lambda>c. parentId c = Some i) categories = []" if "isLeaf categories i"
      using that by (auto simp add: isLeaf_def list_ex_iff filter_empty_conv)
    then show ?thesis using v eq kids by simp
  qed
  then show ?thesis using r by blast
qed

theorem C4_rollup_acyclic_witness:
  "acyclic (set (parentEdges treeP)) \<and> ''__root__'' \<notin> set (map id_c treeP)
   \<and> set (map id_c treeP) \<inter> set objectPrototypeKeys = {}
   \<and> (\<exists>rolled. rollupSeconds treeP directP = Some (Inr rolled)
         \<and> rolled ''p'' = Some (Num 43) \<and> rolled ''c1'' = Some (Num 30)
         \<and> rolled ''c2'' = Some (Num 12))"
proof -
  have edges: "set (parentEdges treeP) = {(''c1'', ''p''), (''c2'', ''p'')}"
    by (simp add: parentEdges_def treeP_def test_category_def)
  have h1: "acyclic (set (parentEdges treeP))"
    unfolding edges by (rule acyclicI_order [where f = length]) auto
  have h2: "''__root__'' \<notin> set (map id_c treeP)"
    by (simp add: treeP_def test_category_def)
  have h3: "\<forall>c\<in>set treeP. id_c c \<notin> set objectPrototypeKeys
              \<and> (\<forall>p. parentId c = Some p \<longrightarrow> p \<notin> set objectPrototypeKeys)"
    by (simp add: treeP_def test_category_def objectPrototypeKeys_def)
  have h4: "\<forall>c\<in>set treeP. \<forall>v. directP (id_c c) = Some v \<longrightarrow> (\<exists>n. v = Num n)"
    by (simp add: treeP_def test_category_def directP_def)
  from C4_rollup_acyclic [OF h1 h2 h3 h4]
  obtain rolled where r: "rollupSeconds treeP directP = Some (Inr rolled)"
    and eq: "\<And>i. i \<in> set (map id_c treeP) \<Longrightarrow>
        rolled i = Some (Num (seconds_at directP i
          + (\<Sum>c\<leftarrow>filter (\<lambda>c. parentId c = Some i) treeP. seconds_at rolled (id_c c))))"
    by blast
  have c1: "rolled ''c1'' = Some (Num 30)"
    using eq [of "''c1''"] by (simp add: treeP_def test_category_def directP_def seconds_at_def)
  have c2: "rolled ''c2'' = Some (Num 12)"
    using eq [of "''c2''"] by (simp add: treeP_def test_category_def directP_def seconds_at_def)
  have p: "rolled ''p'' = Some (Num 43)"
    using eq [of "''p''"] c1 c2
    by (simp add: treeP_def test_category_def directP_def seconds_at_def)
  have h5: "set (map id_c treeP) \<inter> set objectPrototypeKeys = {}"
    by (simp add: treeP_def test_category_def objectPrototypeKeys_def)
  show ?thesis using h1 h2 h5 r p c1 c2 by blast
qed

subsection \<open>C5: the frozen chart\<close>

text \<open>
  C5 has the freeze instant of the hovered chart take the place of \<open>now\<close> in
  the live-elapsed seconds, the window unchanged. The component passes the freeze instant
  as the end of the window instead. A session on \<open>a\<close> from 2000 to 8000 has 6 seconds in
  the window from 0 to 9000, whatever \<open>now\<close> is; the chart frozen at 5000 shows 3.
\<close>

theorem C5_frozen_chart_counterexample:
  "directSecondsChart (\<lambda>_. 9000) endedSession 0 9000 (Some []) True (Some 5000) ''a'' = Some (Num 3)
   \<and> computeDirectSeconds (\<lambda>_. 5000) endedSession 0 9000 (Some []) ''a'' = Some (Num 6)"
  by (simp add: directSecondsChart_def direct_seconds_eval endedSession_def)

text \<open>
  C5, amended, for sessions and goal timers none of which is active with a
  \<^verbatim>\<open>lastStartTime\<close> (present and not 0): when no session is running, the mapping of
  \<open>computeDirectSeconds\<close> is the same whatever the clock reads; and a hovered chart with
  a freeze instant \<open>f\<close> (not 0, and not later than any reading of the clock) shows the
  mapping computed with every reading of the clock equal to \<open>f\<close> over the window cut at
  \<open>f\<close>: the freeze instant takes the place of the end of the window, which for a running
  session counts as \<open>now = f\<close> does, and the mapping does not change while the clock runs.
\<close>

theorem C5_chart_freeze:
  assumes "\<forall>g\<in>set (case goals of None \<Rightarrow> [] | Some gs \<Rightarrow> gs).
             \<not> (isActive g = Some True \<and> truthy_number (lastStartTime g))"
  shows "((\<forall>s\<in>set sessions. end_s s \<noteq> None) \<longrightarrow>
            computeDirectSeconds clock sessions windowStart windowEnd goals
              = computeDirectSeconds clock' sessions windowStart windowEnd goals)
       \<and> (f \<noteq> 0 \<and> (\<forall>n. f \<le> clock n) \<longrightarrow>
            directSecondsChart clock sessions windowStart windowEnd goals True (Some f)
              = computeDirectSeconds (\<lambda>_. f) sessions windowStart f goals)"
proof (intro conjI impI)
  have idle: "\<not> ticking g" if "g \<in> set (case goals of None \<Rightarrow> [] | Some gs \<Rightarrow> gs)" for g
    using that assms by (auto simp add: ticking_def)
  {
    assume "\<forall>s\<in>set sessions. end_s s \<noteq> None"
    then show "computeDirectSeconds clock sessions windowStart windowEnd goals
             = computeDirectSeconds clock' sessions windowStart windowEnd goals"
      by (intro computeDirectSeconds_clock sessionMs_ended idle) auto
  next
    assume f: "f \<noteq> 0 \<and> (\<forall>n. f \<le> clock n)"
    have "computeDirectSeconds clock sessions windowStart f goals
        = computeDirectSeconds (\<lambda>_. f) sessions windowStart f goals"
    proof (rule computeDirectSeconds_clock)
      fix s m m'
      show "sessionMs windowStart f (clock m) s = sessionMs windowStart f f s"
        using f by (intro sessionMs_frozen) simp
    qed (rule idle)
    then show "directSecondsChart clock sessions windowStart windowEnd goals True (Some f)
             = computeDirectSeconds (\<lambda>_. f) sessions windowStart f goals"
      using f by (simp add: directSecondsChart_def)
  }
qed

theorem C5_chart_freeze_witness:
  "computeDirectSeconds (\<lambda>_. 9000) endedSession 0 9000 pausedGoal
       = computeDirectSeconds (\<lambda>_. 10000) endedSession 0 9000 pausedGoal
   \<and> (5000::number) \<noteq> 0 \<and> (\<forall>n::nat. (5000::number) \<le> (\<lambda>_. 9000) n)
   \<and> directSecondsChart (\<lambda>_. 9000) runningSession 0 9000 pausedGoal True (Some 5000)
       = computeDirectSeconds (\<lambda>_. 5000) runningSession 0 5000 pausedGoal
   \<and> computeDirectSeconds (\<lambda>_. 5000) runningSession 0 5000 pausedGoal ''a'' = Some (Num 3)
   \<and> computeDirectSeconds (\<lambda>_. 5000) runningSession 0 5000 pausedGoal ''b'' = Some (Num 7)"
proof -
  have h: "\<forall>g\<in>set (case pausedGoal of None \<Rightarrow> [] | Some gs \<Rightarrow> gs).
             \<not> (isActive g = Some True \<and> truthy_number (lastStartTime g))"
    by (simp add: pausedGoal_def test_goal_def)
  have e: "\<forall>s\<in>set endedSession. end_s s \<noteq> None"
    by (simp add: endedSession_def test_session_def)
  have f: "(5000::number) \<noteq> 0 \<and> (\<forall>n::nat. (5000::number) \<le> (\<lambda>_. 9000) n)"
    by simp
  have a: "computeDirectSeconds (\<lambda>_. 5000) runningSession 0 5000 pausedGoal ''a'' = Some (Num 3)"
    by (simp add: direct_seconds_eval runningSession_def pausedGoal_def)
  have b: "computeDirectSeconds (\<lambda>_. 5000) runningSession 0 5000 pausedGoal ''b'' = Some (Num 7)"
    by (simp add: direct_seconds_eval runningSession_def pausedGoal_def)
  have "computeDirectSeconds (\<lambda>_. 9000) endedSession 0 9000 pausedGoal
       = computeDirectSeconds (\<lambda>_. 10000) endedSession 0 9000 pausedGoal"
    using e C5_chart_freeze [OF h, of endedSession "\<lambda>_. 9000" 0 9000 "\<lambda>_. 10000"] by blast
  moreover have "directSecondsChart (\<lambda>_. 9000) runningSession 0 9000 pausedGoal True (Some 5000)
       = computeDirectSeconds (\<lambda>_. 5000) runningSession 0 5000 pausedGoal"
    using f C5_chart_freeze [OF h, of runningSession "\<lambda>_. 9000" 0 9000 _ 5000] by blast
  ultimately show ?thesis using f a b by blast
qed

subsection \<open>C7: goal-sum validation\<close>

text \<open>
  C7, as the specification states it, has the editor report, for the root categories
  \<open>A\<close> (goal 60) and \<open>B\<close> (goal 40), the sum 100 and no excess when \<open>A\<close> is
  edited to 70. The code adds the proposed 70 to the 40 of \<open>B\<close>: the sum is 110
  and it exceeds 100.
\<close>

theorem C7_edit_A_to_70_counterexample:
  "editorGoalCheck rootAB catA 70 = (110, True) \<and> editorGoalCheck rootAB catA 70 \<noteq> (100, False)"
  by (simp add: editorGoalCheck_rootAB)

text \<open>
  C7, amended: the general statement holds, and the sums of the example are 90, 110 and
  111. Editing a category \<open>cat\<close> of the snapshot (its id not the empty string, its
  parent not the empty string) the editor computes the sum \<open>S\<close> of the goals of the
  categories with the same parent as \<open>cat\<close>, the proposed value taken in place of the
  goal of \<open>cat\<close>, and reports \<open>over\<close> exactly when \<open>S > 100\<close>. At the root level an
  override with an id (not the empty string) is substituted for the root categories with
  that id and added when there is none. A new category (an override without id) adds its
  goal to the sum of the goals at its level. For the roots
  \<open>A\<close> = 60 and \<open>B\<close> = 40, editing \<open>A\<close> to 50 gives (90, no excess), to 60
  gives (100, no excess), to 70 gives (110, excess) and to 71 gives (111, excess).
\<close>

theorem C7_goal_sum_validation:
  "(cat \<in> set categories \<and> id_c cat \<noteq> [] \<and> parentId cat \<noteq> Some [] \<longrightarrow>
      editorGoalCheck categories cat g =
        (let S = (\<Sum>c\<leftarrow>filter (\<lambda>c. parentId c = parentId cat) categories.
                     if id_c c = id_c cat then g else nullish (goalPct c) 0)
         in (S, S > 100)))
   \<and> (i \<noteq> [] \<longrightarrow>
        computeRootGoalSum categories (Some \<lparr>id_o = Some i, goal_o = Some g\<rparr>) =
          (\<Sum>c\<leftarrow>filter (\<lambda>c. parentId c = None) categories.
              if id_c c = i then g else nullish (goalPct c) 0)
          + (if \<exists>c\<in>set categories. id_c c = i \<and> parentId c = None then 0 else g))
   \<and> computeRootGoalSum categories (Some \<lparr>id_o = None, goal_o = Some g\<rparr>) =
       (\<Sum>c\<leftarrow>filter (\<lambda>c. parentId c = None) categories. nullish (goalPct c) 0) + g
   \<and> computeChildGoalSum categories p (Some \<lparr>id_o = None, goal_o = Some g\<rparr>) =
       (\<Sum>c\<leftarrow>filter (\<lambda>c. parentId c = Some p) categories. nullish (goalPct c) 0) + g
   \<and> editorGoalCheck rootAB catA 50 = (90, False)
   \<and> editorGoalCheck rootAB catA 60 = (100, False)
   \<and> editorGoalCheck rootAB catA 70 = (110, True)
   \<and> editorGoalCheck rootAB catA 71 = (111, True)"
  using editorGoalCheck_closed_form [of cat categories g]
    computeRootGoalSum_edit [of i categories g]
  by (simp add: computeRootGoalSum_new computeChildGoalSum_new editorGoalCheck_rootAB)

theorem C7_goal_sum_validation_witness:
  "catB \<in> set rootAB \<and> id_c catB \<noteq> [] \<and> parentId catB \<noteq> Some []
   \<and> editorGoalCheck rootAB catB 30 = (90, False)
   \<and> ''C'' \<noteq> []
   \<and> computeRootGoalSum rootAB (Some \<lparr>id_o = Some ''C'', goal_o = Some 5\<rparr>) = 105
   \<and> computeRootGoalSum rootAB (Some \<lparr>id_o = None, goal_o = Some 5\<rparr>) = 105"
  using C7_goal_sum_validation [of catB rootAB 30 "''C''" "''A''"]
        C7_goal_sum_validation [of catB rootAB 5 "''C''" "''A''"]
  by (simp add: rootAB_def catA_def catB_def test_category_def Let_def)

subsection \<open>C8: the duration format\<close>

text \<open>
  C8 has every label pluralized unless its count is 1, and days as the only second unit
  after years. The code never pluralizes \<open>min\<close> and \<open>sec\<close> (120 seconds are
  \<open>2 min 0 sec\<close>), and after the years of a duration with no whole day left it shows
  the hours (a year and two hours are \<open>1 yr 2 hrs\<close>).
\<close>

theorem C8_formatHMS_counterexample:
  "formatHMS 120 = ''2 min 0 sec'' \<and> spec_formatDuration 120 = ''2 mins 0 secs''
   \<and> formatHMS 31543200 = ''1 yr 2 hrs'' \<and> spec_formatDuration 31543200 = ''1 yr''"
  by (simp add: formatHMS_120 formatHMS_year_2h)
     (simp add: spec_formatDuration_def spec_unit_def Let_def YEAR_def DAY_def HOUR_def MINUTE_def
        digits_small digits_large)

text \<open>
  C8, amended: for every input of \<open>s\<close> whole seconds (a negative input counts 0) that does
  not have both a whole year and, after the years, a whole day, \<open>formatHMS\<close> shows at most
  two units: years then hours (if not 0) from one year on; days then hours (if not 0) from
  one day on and under a year; hours then minutes from one hour on and under a day; minutes
  then seconds from one minute on and under an hour; seconds only under a minute. The labels
  \<open>yr\<close>, \<open>day\<close> and \<open>hr\<close> take an \<open>s\<close> unless their count is 1; \<open>min\<close> and
  \<open>sec\<close> never do.
\<close>

theorem C8_formatHMS_table:
  assumes "s = nat \<lfloor>t\<rfloor>" and "\<not> (YEAR \<le> s \<and> DAY \<le> s mod YEAR)"
  shows "formatHMS t =
    (if YEAR \<le> s then
       digits (s div YEAR) @ '' yr'' @ plural (s div YEAR)
       @ (if s mod YEAR div HOUR = 0 then []
          else '' '' @ digits (s mod YEAR div HOUR) @ '' hr'' @ plural (s mod YEAR div HOUR))
     else if DAY \<le> s then
       digits (s div DAY) @ '' day'' @ plural (s div DAY)
       @ (if s mod DAY div HOUR = 0 then []
          else '' '' @ digits (s mod DAY div HOUR) @ '' hr'' @ plural (s mod DAY div HOUR))
     else if HOUR \<le> s then
       digits (s div HOUR) @ '' hr'' @ plural (s div HOUR)
       @ '' '' @ digits (s mod HOUR div MINUTE) @ '' min''
     else if MINUTE \<le> s then
       digits (s div MINUTE) @ '' min'' @ '' '' @ digits (s mod MINUTE) @ '' sec''
     else digits s @ '' sec'')"
proof -
  have eq: "formatHMS t =
      join_space (formatHMS_parts (s div YEAR) (s mod YEAR div DAY) (s mod YEAR mod DAY div HOUR)
           (s mod YEAR mod DAY mod HOUR div MINUTE) (s mod YEAR mod DAY mod HOUR mod MINUTE))"
    by (simp add: formatHMS_counts assms(1) Let_def)
  consider (year) "YEAR \<le> s" | (day) "s < YEAR" "DAY \<le> s" | (hour) "s < DAY" "HOUR \<le> s"
    | (minute) "s < HOUR" "MINUTE \<le> s" | (second) "s < MINUTE"
    by linarith
  then show ?thesis
  proof cases
    case year
    then have y: "s div YEAR \<noteq> 0" by (simp add: div_zero_iff_less)
    have small: "s mod YEAR < DAY" using assms(2) year by simp
    then have d: "s mod YEAR div DAY = 0" by simp
    show ?thesis
      unfolding eq formatHMS_parts_cases Let_def
      using year y d small by simp
  next
    case day
    then have y: "s div YEAR = 0" "s mod YEAR = s" by simp_all
    have d: "s div DAY \<noteq> 0" using day by (simp add: div_zero_iff_less)
    show ?thesis
      unfolding eq formatHMS_parts_cases Let_def y
      using day d by simp
  next
    case hour
    have lt: "s < YEAR" using hour by (simp add: YEAR_def DAY_def)
    have y: "s div YEAR = 0" "s mod YEAR = s" using lt by simp_all
    have d: "s div DAY = 0" "s mod DAY = s" using hour by simp_all
    have h: "s div HOUR \<noteq> 0" using hour by (simp add: div_zero_iff_less)
    show ?thesis
      unfolding eq formatHMS_parts_cases Let_def y d
      using hour lt h by simp
  next
    case minute
    have lt: "s < YEAR" "s < DAY" using minute by (simp_all add: YEAR_def DAY_def HOUR_def)
    have y: "s div YEAR = 0" "s mod YEAR = s" using lt by simp_all
    have d: "s div DAY = 0" "s mod DAY = s" using lt by simp_all
    have h: "s div HOUR = 0" "s mod HOUR = s" using minute by simp_all
    have m: "s div MINUTE \<noteq> 0" using minute by (simp add: div_zero_iff_less)
    show ?thesis
      unfolding eq formatHMS_parts_cases Let_def y d h
      using minute lt m by simp
  next
    case second
    have lt: "s < YEAR" "s < DAY" "s < HOUR"
      using second by (simp_all add: YEAR_def DAY_def HOUR_def MINUTE_def)
    have y: "s div YEAR = 0" "s mod YEAR = s" using lt by simp_all
    have d: "s div DAY = 0" "s mod DAY = s" using lt by simp_all
    have h: "s div HOUR = 0" "s mod HOUR = s" using lt by simp_all
    have m: "s div MINUTE = 0" "s mod MINUTE = s" using second by simp_all
    show ?thesis
      unfolding eq formatHMS_parts_cases Let_def y d h m
      using second lt by simp
  qed
qed

theorem C8_formatHMS_table_witness:
  "(93600::nat) = nat \<lfloor>93600::number\<rfloor> \<and> \<not> (YEAR \<le> 93600 \<and> DAY \<le> 93600 mod YEAR)
   \<and> formatHMS 93600 = ''1 day 2 hrs''"
proof -
  have h1: "(93600::nat) = nat \<lfloor>93600::number\<rfloor>" by simp
  have h2: "\<not> (YEAR \<le> 93600 \<and> DAY \<le> 93600 mod YEAR)" by (simp add: YEAR_def)
  have "formatHMS 93600 = ''1 day 2 hrs''"
    using C8_formatHMS_table [OF h1 h2]
    by (simp add: YEAR_def DAY_def HOUR_def MINUTE_def digits_small digits_large plural_def)
  then show ?thesis using h1 h2 by blast
qed

subsection \<open>C9: an unknown range selector\<close>

text \<open>
  C9 has \<open>rangeBounds\<close> fail on a selector outside Today, Week, Month, Year, All.
  The \<^verbatim>\<open>switch\<close> has a \<^verbatim>\<open>default\<close> branch, shared with \<^verbatim>\<open>"All"\<close>:
  the selector \<open>Decade\<close> returns the window from 0 to \<open>now\<close>.
\<close>

theorem C9_unknown_range_counterexample:
  "rangeBounds instantCalendar 1700000000000 ''Decade'' = \<lparr>start_b = 0, end_b = 1700000000000\<rparr>"
  by (simp add: rangeBounds_def)

text \<open>
  C9, amended: for every reference instant \<open>now\<close>, \<open>rangeBounds\<close> applied to a
  selector outside Today, Week, Month, Year, All returns the window of All, from 0 to
  \<open>now\<close>; it does not fail.
\<close>

theorem C9_unknown_range_is_All:
  assumes "range' \<notin> {''Today'', ''Week'', ''Month'', ''Year'', ''All''}"
  shows "rangeBounds cal now range' = \<lparr>start_b = 0, end_b = now\<rparr>
         \<and> rangeBounds cal now range' = rangeBounds cal now ''All''"
  using assms by (simp add: rangeBounds_def)

theorem C9_unknown_range_is_All_witness:
  "''Quarter'' \<notin> {''Today'', ''Week'', ''Month'', ''Year'', ''All''}
   \<and> rangeBounds instantCalendar 86400000 ''Quarter'' = \<lparr>start_b = 0, end_b = 86400000\<rparr>
   \<and> rangeBounds instantCalendar 86400000 ''Quarter'' = rangeBounds instantCalendar 86400000 ''All''"
proof -
  have h: "''Quarter'' \<notin> {''Today'', ''Week'', ''Month'', ''Year'', ''All''}" by simp
  show ?thesis
    using h C9_unknown_range_is_All [OF h, of instantCalendar 86400000] by blast
qed

subsection \<open>C10: every direct total is positive\<close>

text \<open>
  C10 has every value of the mapping strictly positive. \<^verbatim>\<open>totals\<close> is an object
  created by \<^verbatim>\<open>{}\<close>: for a session of 10 seconds on the category
  \<^verbatim>\<open>"constructor"\<close> the read \<^verbatim>\<open>totals[k] ?? 0\<close> gives the inherited member, and the
  value stored is a string, not a positive number.
\<close>

theorem C10_constructor_counterexample:
  "computeDirectSeconds (\<lambda>_. 90000) constructorSession 0 60000 (Some []) ''constructor'' = Some Str"
  by (simp add: direct_seconds_eval constructorSession_def)

text \<open>
  C10, amended: every value of the mapping that \<open>computeDirectSeconds\<close> returns, at a
  key that is not the name of a property inherited from \<^verbatim>\<open>Object.prototype\<close>, is a
  strictly positive number; and a category all of whose sessions have no overlap with the
  window and all of whose goal timers have a total that is not positive, at every reading
  of the clock, has no entry in the mapping.
\<close>

theorem C10_direct_seconds_positive:
  "(\<forall>c v. c \<notin> set objectPrototypeKeys
        \<and> computeDirectSeconds clock sessions windowStart windowEnd goals c = Some v
      \<longrightarrow> (\<exists>x. v = Num x \<and> 0 < x))
   \<and> (\<forall>c. (\<forall>s\<in>set sessions. categoryId s = c \<longrightarrow>
              (\<forall>n. overlapMs (start s) (nullish (end_s s) (clock n)) windowStart windowEnd = 0))
          \<and> (\<forall>g\<in>set (case goals of None \<Rightarrow> [] | Some gs \<Rightarrow> gs). categoryId_g g = c \<longrightarrow>
              (\<forall>n. or_number (totalSeconds g) 0 + currentElapsed (clock n) g \<le> 0))
        \<longrightarrow> computeDirectSeconds clock sessions windowStart windowEnd goals c = None)"
proof (intro conjI allI impI)
  fix c v
  assume "c \<notin> set objectPrototypeKeys
    \<and> computeDirectSeconds clock sessions windowStart windowEnd goals c = Some v"
  then show "\<exists>x. v = Num x \<and> 0 < x"
    using computeDirectSeconds_totals_ok [of clock sessions windowStart windowEnd goals]
    unfolding totals_ok_def by (auto split: if_splits)
next
  fix c
  assume h: "(\<forall>s\<in>set sessions. categoryId s = c \<longrightarrow>
              (\<forall>n. overlapMs (start s) (nullish (end_s s) (clock n)) windowStart windowEnd = 0))
          \<and> (\<forall>g\<in>set (case goals of None \<Rightarrow> [] | Some gs \<Rightarrow> gs). categoryId_g g = c \<longrightarrow>
              (\<forall>n. or_number (totalSeconds g) 0 + currentElapsed (clock n) g \<le> 0))"
  show "computeDirectSeconds clock sessions windowStart windowEnd goals c = None"
    unfolding computeDirectSeconds_accumulate
  proof (rule accumulate_absent_pair)
    show "snd (accumulate running categoryId (\<lambda>now s. sessionMs windowStart windowEnd now s / 1000)
                 clock sessions (0, Map.empty)) c = None"
      using h by (intro accumulate_absent_pair) (simp_all add: sessionMs_def)
  next
    fix g m
    assume "g \<in> set (case goals of None \<Rightarrow> [] | Some gs \<Rightarrow> gs)" and "categoryId_g g = c"
    then have "goalTotal (clock m) g \<le> 0" using h by (simp add: goalTotal_def)
    then show "\<not> 0 < goalTotal (clock m) g" by simp
  qed
qed

theorem C10_direct_seconds_positive_witness:
  "''a'' \<notin> set objectPrototypeKeys
   \<and> computeDirectSeconds (\<lambda>_. 90000) twoSessions 0 60000 idleGoal ''a'' = Some (Num 10)
   \<and> (\<exists>x. Num 10 = Num x \<and> 0 < x)
   \<and> overlapMs (start (twoSessions ! 1)) (nullish (end_s (twoSessions ! 1)) 90000) 0 60000 = 0
   \<and> computeDirectSeconds (\<lambda>_. 90000) twoSessions 0 60000 idleGoal ''b'' = None"
proof -
  note inst = C10_direct_seconds_positive [of "\<lambda>_. 90000" twoSessions 0 60000 idleGoal]
  have k: "''a'' \<notin> set objectPrototypeKeys"
    by (simp add: objectPrototypeKeys_def)
  have a: "computeDirectSeconds (\<lambda>_. 90000) twoSessions 0 60000 idleGoal ''a'' = Some (Num 10)"
    by (simp add: direct_seconds_eval twoSessions_def idleGoal_def)
  have pos: "\<exists>x. Num 10 = Num x \<and> 0 < x"
    using inst k a by blast
  have pre: "(\<forall>s\<in>set twoSessions. categoryId s = ''b'' \<longrightarrow>
              (\<forall>n. overlapMs (start s) (nullish (end_s s) ((\<lambda>_. 90000) n)) 0 60000 = 0))
          \<and> (\<forall>g\<in>set (case idleGoal of None \<Rightarrow> [] | Some gs \<Rightarrow> gs). categoryId_g g = ''b'' \<longrightarrow>
              (\<forall>n. or_number (totalSeconds g) 0 + currentElapsed ((\<lambda>_. 90000) n) g \<le> 0))"
    by (simp add: twoSessions_def idleGoal_def test_session_def test_goal_def overlapMs_def
        currentElapsed_def or_number_def Let_def)
  have b: "computeDirectSeconds (\<lambda>_. 90000) twoSessions 0 60000 idleGoal ''b'' = None"
    using inst pre by blast
  have z: "overlapMs (start (twoSessions ! 1)) (nullish (end_s (twoSessions ! 1)) 90000) 0 60000 = 0"
    by (simp add: twoSessions_def test_session_def overlapMs_def Let_def)
  show ?thesis
    using k a pos b z by blast
qed

end
